theory Spec2Isabelle
  imports Complex_Main
begin

section \<open>JavaScript numbers\<close>

text \<open>
  A TypeScript \<open>number\<close> is an IEEE-754 double. A finite double is modelled by the real
  number it denotes, and every arithmetic operation returns the exact result rounded to
  the nearest double, ties to the even significand (\<open>dbl\<close>): 53 significant bits, the
  unit in the last place being \<open>2\<close> to the power \<open>\<lfloor>log\<^sub>2 |v|\<rfloor> - 52\<close>. The exponent range is
  not bounded, so the model agrees with the double arithmetic of the program wherever
  that neither overflows nor reaches the subnormal range; the infinities are not
  modelled. \<open>NaN\<close> is a value of its own and also stands for \<open>undefined\<close> used in
  arithmetic (a bounding-box field that is missing). A division by zero, which would
  give an infinity or \<open>NaN\<close>, gives \<open>NaN\<close>; that the divisors of \<open>calculateSpeed\<close> are
  never zero is proved below. Every comparison with \<open>NaN\<close> is false, as in JavaScript.
\<close>

text \<open>Rounding to the nearest integer, a tie going to the even one.\<close>

definition rne :: "real \<Rightarrow> int" where
  "rne v = (let f = \<lfloor>v\<rfloor>; d = v - of_int f
            in if d < 1 / 2 then f else if 1 / 2 < d then f + 1
               else if even f then f else f + 1)"

definition ulp :: "real \<Rightarrow> real" where
  "ulp v = 2 powi (\<lfloor>log 2 \<bar>v\<bar>\<rfloor> - 52)"

definition dbl :: "real \<Rightarrow> real" where
  "dbl v = (if v = 0 then 0 else ulp v * of_int (rne (v / ulp v)))"

datatype number = Num real | NaN

fun num_add :: "number \<Rightarrow> number \<Rightarrow> number" where
  "num_add (Num a) (Num b) = Num (dbl (a + b))"
| "num_add _ _ = NaN"

fun num_sub :: "number \<Rightarrow> number \<Rightarrow> number" where
  "num_sub (Num a) (Num b) = Num (dbl (a - b))"
| "num_sub _ _ = NaN"

fun num_mul :: "number \<Rightarrow> number \<Rightarrow> number" where
  "num_mul (Num a) (Num b) = Num (dbl (a * b))"
| "num_mul _ _ = NaN"

fun num_div :: "number \<Rightarrow> number \<Rightarrow> number" where
  "num_div (Num a) (Num b) = (if b = 0 then NaN else Num (dbl (a / b)))"
| "num_div _ _ = NaN"

fun num_lt :: "number \<Rightarrow> number \<Rightarrow> bool" where
  "num_lt (Num a) (Num b) = (a < b)"
| "num_lt _ _ = False"

definition num_gt :: "number \<Rightarrow> number \<Rightarrow> bool" where
  "num_gt a b = num_lt b a"

fun num_abs :: "number \<Rightarrow> number" where
  "num_abs (Num a) = Num \<bar>a\<bar>"
| "num_abs NaN = NaN"

text \<open>\<open>Math.sqrt\<close>, taken as correctly rounded (the hardware square root).\<close>

fun num_sqrt :: "number \<Rightarrow> number" where
  "num_sqrt (Num a) = (if a < 0 then NaN else Num (dbl (sqrt a)))"
| "num_sqrt NaN = NaN"

text \<open>
  \<open>Math.round\<close> returns the nearest integer, a tie going up: \<open>\<lfloor>x + 1/2\<rfloor>\<close>, computed
  exactly.
\<close>

fun num_round :: "number \<Rightarrow> number" where
  "num_round (Num a) = Num (of_int \<lfloor>a + 1 / 2\<rfloor>)"
| "num_round NaN = NaN"

text \<open>\<open>xs.slice(-n)\<close>: the last \<open>n\<close> elements, or all of them when there are fewer.\<close>

definition slice_last :: "nat \<Rightarrow> 'a list \<Rightarrow> 'a list" where
  "slice_last n xs = drop (length xs - n) xs"

section \<open>speedCalculation.ts\<close>

record Position =
  x :: number
  y :: number
  timestamp :: number

text \<open>The literals \<open>0.015\<close> and \<open>3.6\<close> denote the doubles nearest to them.\<close>

definition PIXEL_TO_METER :: number where "PIXEL_TO_METER = Num (dbl (15 / 1000))"
definition MS_TO_KMH :: number where "MS_TO_KMH = Num (dbl (36 / 10))"
definition MIN_MOVEMENT_THRESHOLD :: number where "MIN_MOVEMENT_THRESHOLD = Num 2"
definition MAX_SPEED_THRESHOLD :: number where "MAX_SPEED_THRESHOLD = Num 30"
definition SPEED_SMOOTHING_WINDOW :: nat where "SPEED_SMOOTHING_WINDOW = 3"

text \<open>The quantities computed in the body of the loop of \<open>calculateSpeed\<close>.\<close>

definition distance :: "Position \<Rightarrow> Position \<Rightarrow> number" where
  "distance prev cur =
     (let dx = num_sub (x cur) (x prev);
          dy = num_sub (y cur) (y prev)
      in num_sqrt (num_add (num_mul dx dx) (num_mul dy dy)))"

definition timeDiff :: "Position \<Rightarrow> Position \<Rightarrow> number" where
  "timeDiff prev cur = num_div (num_sub (timestamp cur) (timestamp prev)) (Num 1000)"

definition speed_of :: "Position \<Rightarrow> Position \<Rightarrow> number" where
  "speed_of prev cur =
     num_mul (num_div (num_mul (distance prev cur) PIXEL_TO_METER) (timeDiff prev cur))
       MS_TO_KMH"

text \<open>
  The loop \<open>for (let i = 1; i < positions.length; i++)\<close>: the first argument is what is
  left of \<open>positions\<close> from index \<open>i - 1\<close> on, the second the array \<open>speeds\<close> so far.
\<close>

fun speeds_loop :: "Position list \<Rightarrow> number list \<Rightarrow> number list" where
  "speeds_loop (prev # cur # rest) speeds =
     speeds_loop (cur # rest)
       (if num_gt (distance prev cur) MIN_MOVEMENT_THRESHOLD
            \<and> num_gt (timeDiff prev cur) (Num 0)
        then (if num_lt (speed_of prev cur) MAX_SPEED_THRESHOLD
              then speeds @ [speed_of prev cur] else speeds)
        else speeds)"
| "speeds_loop [p] speeds = speeds"
| "speeds_loop [] speeds = speeds"

definition calculateSpeed :: "Position list \<Rightarrow> number" where
  "calculateSpeed positions =
     (if length positions < 2 then Num 0
      else let speeds = speeds_loop positions []
           in if length speeds = 0 then Num 0
              else let recentSpeeds = slice_last SPEED_SMOOTHING_WINDOW speeds;
                       averageSpeed = num_div (foldl num_add (Num 0) recentSpeeds)
                                        (Num (real (length recentSpeeds)))
                   in num_round averageSpeed)"

text \<open>The loop of \<open>determineAction\<close>, carrying (verticalMovement, horizontalMovement).\<close>

fun movement_loop :: "Position list \<Rightarrow> number \<times> number \<Rightarrow> number \<times> number" where
  "movement_loop (prev # cur # rest) (verticalMovement, horizontalMovement) =
     movement_loop (cur # rest)
       (num_add verticalMovement (num_abs (num_sub (y cur) (y prev))),
        num_add horizontalMovement (num_abs (num_sub (x cur) (x prev))))"
| "movement_loop [p] vh = vh"
| "movement_loop [] vh = vh"

definition determineAction :: "Position list \<Rightarrow> number \<Rightarrow> string" where
  "determineAction positions speed =
     (if length positions < 2 then ''stationary''
      else let recentPositions = slice_last 3 positions;
               (verticalMovement, horizontalMovement) =
                  movement_loop recentPositions (Num 0, Num 0)
           in if num_lt speed (Num 1)
              then (if num_lt verticalMovement (num_mul MIN_MOVEMENT_THRESHOLD (Num 2))
                    then ''sitting'' else ''standing'')
              else if num_lt speed (Num 3)
              then (if num_gt verticalMovement horizontalMovement
                    then ''standing'' else ''walking slowly'')
              else if num_lt speed (Num 8) then ''walking''
              else if num_lt speed (Num 15) then ''walking fast''
              else ''running'')"

text \<open>The guard of the loop body of \<open>calculateSpeed\<close>: the pair's speed is pushed.\<close>

definition kept :: "Position \<Rightarrow> Position \<Rightarrow> bool" where
  "kept prev cur \<longleftrightarrow>
     num_gt (distance prev cur) MIN_MOVEMENT_THRESHOLD \<and> num_gt (timeDiff prev cur) (Num 0)
     \<and> num_lt (speed_of prev cur) MAX_SPEED_THRESHOLD"

text \<open>What \<open>calculateSpeed\<close> does once the array \<open>speeds\<close> is filled.\<close>

definition smoothed :: "number list \<Rightarrow> number" where
  "smoothed speeds =
     (if length speeds = 0 then Num 0
      else let recentSpeeds = slice_last SPEED_SMOOTHING_WINDOW speeds;
               averageSpeed = num_div (foldl num_add (Num 0) recentSpeeds)
                                (Num (real (length recentSpeeds)))
           in num_round averageSpeed)"

section \<open>The specification's reading of the kinematics\<close>

text \<open>
  The definitions of this section follow the words of the specification and share no
  list or sign function with the program above. The arithmetic is that of doubles, as
  everywhere.
\<close>

text \<open>Consecutive sample pairs \<open>(positions[i - 1], positions[i])\<close>, in order.\<close>

definition consecutive_pairs :: "'a list \<Rightarrow> ('a \<times> 'a) list" where
  "consecutive_pairs xs = zip xs (tl xs)"

text \<open>The last \<open>n\<close> entries of a list, or all of it when it has fewer.\<close>

definition last_window :: "nat \<Rightarrow> 'a list \<Rightarrow> 'a list" where
  "last_window n xs = rev (take n (rev xs))"

text \<open>The absolute value: a negative number loses its sign.\<close>

fun magnitude :: "number \<Rightarrow> number" where
  "magnitude (Num a) = Num (if a < 0 then - a else a)"
| "magnitude NaN = NaN"

text \<open>The sum of a list of numbers, accumulated from 0 in list order.\<close>

definition total :: "number list \<Rightarrow> number" where
  "total vs = fold (\<lambda>v acc. num_add acc v) vs (Num 0)"

text \<open>Sum of the absolute vertical (horizontal) deltas over the last 3 positions.\<close>

definition verticalMovement :: "Position list \<Rightarrow> number" where
  "verticalMovement positions =
     total (map (\<lambda>(prev, cur). magnitude (num_sub (y cur) (y prev)))
              (consecutive_pairs (last_window 3 positions)))"

definition horizontalMovement :: "Position list \<Rightarrow> number" where
  "horizontalMovement positions =
     total (map (\<lambda>(prev, cur). magnitude (num_sub (x cur) (x prev)))
              (consecutive_pairs (last_window 3 positions)))"

text \<open>The ordered decision table of the specification; the first row that applies wins.\<close>

definition action_table :: "nat \<Rightarrow> number \<Rightarrow> number \<Rightarrow> number \<Rightarrow> string" where
  "action_table n speed vm hm =
     (if n < 2 then ''stationary''
      else if num_lt speed (Num 1) \<and> num_lt vm (Num 4) then ''sitting''
      else if num_lt speed (Num 1) then ''standing''
      else if num_lt speed (Num 3) \<and> num_gt vm hm then ''standing''
      else if num_lt speed (Num 3) then ''walking slowly''
      else if num_lt speed (Num 8) then ''walking''
      else if num_lt speed (Num 15) then ''walking fast''
      else ''running'')"

text \<open>A position sample all of whose fields are finite numbers.\<close>

definition sample :: "real \<times> real \<times> real \<Rightarrow> Position" where
  "sample p = (case p of (a, b, t) \<Rightarrow> \<lparr>x = Num a, y = Num b, timestamp = Num t\<rparr>)"

text \<open>
  Euclidean pixel distance, elapsed seconds and instantaneous speed in km/h
  (\<open>distance * 0.015 / elapsedSeconds * 3.6\<close>) of two finite samples.
\<close>

definition pixel_distance :: "real \<times> real \<times> real \<Rightarrow> real \<times> real \<times> real \<Rightarrow> real" where
  "pixel_distance p q =
     (case (p, q) of ((a1, b1, t1), (a2, b2, t2)) \<Rightarrow>
        dbl (sqrt (dbl (dbl (dbl (a2 - a1) * dbl (a2 - a1))
                        + dbl (dbl (b2 - b1) * dbl (b2 - b1))))))"

definition elapsed_seconds :: "real \<times> real \<times> real \<Rightarrow> real \<times> real \<times> real \<Rightarrow> real" where
  "elapsed_seconds p q =
     (case (p, q) of ((a1, b1, t1), (a2, b2, t2)) \<Rightarrow> dbl (dbl (t2 - t1) / 1000))"

definition instantaneous_speed :: "real \<times> real \<times> real \<Rightarrow> real \<times> real \<times> real \<Rightarrow> real" where
  "instantaneous_speed p q =
     dbl (dbl (dbl (pixel_distance p q * dbl (15 / 1000)) / elapsed_seconds p q)
          * dbl (36 / 10))"

text \<open>A pair survives the filters: it moved more than 2px, in positive time, below 30 km/h.\<close>

definition survives :: "real \<times> real \<times> real \<Rightarrow> real \<times> real \<times> real \<Rightarrow> bool" where
  "survives p q \<longleftrightarrow>
     pixel_distance p q > 2 \<and> elapsed_seconds p q > 0 \<and> instantaneous_speed p q < 30"

text \<open>
  The average of a list of speeds: their sum, accumulated from 0 in list order, divided by
  their number. The specification leaves the empty average open; it is taken as 0 here.
\<close>

definition average :: "real list \<Rightarrow> real" where
  "average rs =
     (if rs = [] then 0 else dbl (fold (\<lambda>r s. dbl (s + r)) rs 0 / real (length rs)))"

fun num_le :: "number \<Rightarrow> number \<Rightarrow> bool" where
  "num_le (Num a) (Num b) = (a \<le> b)"
| "num_le _ _ = False"

section \<open>Camera.tsx: the detection cycle\<close>

text \<open>
  \<open>interface Detection\<close> and \<open>interface TrackedObject\<close>. A tracked object has the three
  fields of a detection and five more, so it is the record extension. The fields \<open>id\<close>
  and \<open>class\<close> carry a prime, the plain names being taken in Isabelle.
\<close>

record Detection =
  bbox :: "number list"
  class' :: string
  score :: number

record TrackedObject = Detection +
  id' :: string
  positions :: "Position list"
  speed :: number
  action :: string
  lastUpdate :: number

definition POSITION_HISTORY :: nat where "POSITION_HISTORY = 15"
definition OBJECT_TIMEOUT :: number where "OBJECT_TIMEOUT = Num 1000"

text \<open>
  Reading \<open>bbox[i]\<close>, also by the destructuring \<open>[x, y, width, height] = pred.bbox\<close>:
  past the end of the array the value is \<open>undefined\<close>, which every arithmetic operator
  turns into \<open>NaN\<close>.
\<close>

definition bbox_at :: "number list \<Rightarrow> nat \<Rightarrow> number" where
  "bbox_at b i = (if i < length b then b ! i else NaN)"

text \<open>\<open>x + width / 2\<close> and \<open>y + height / 2\<close>.\<close>

definition centerX :: "number list \<Rightarrow> number" where
  "centerX b = num_add (bbox_at b 0) (num_div (bbox_at b 2) (Num 2))"

definition centerY :: "number list \<Rightarrow> number" where
  "centerY b = num_add (bbox_at b 1) (num_div (bbox_at b 3) (Num 2))"

text \<open>The predicate given to \<open>prevObjects.find\<close>.\<close>

definition within_gate :: "Detection \<Rightarrow> TrackedObject \<Rightarrow> bool" where
  "within_gate pred obj \<longleftrightarrow>
     class' obj = class' pred
     \<and> num_lt (num_abs (num_sub (num_add (bbox_at (bbox obj) 0)
                                   (num_div (bbox_at (bbox obj) 2) (Num 2)))
                          (centerX (bbox pred)))) (Num 50)
     \<and> num_lt (num_abs (num_sub (num_add (bbox_at (bbox obj) 1)
                                   (num_div (bbox_at (bbox obj) 3) (Num 2)))
                          (centerY (bbox pred)))) (Num 50)"

text \<open>\<open>Array.prototype.find\<close>: the first element that satisfies the predicate.\<close>

definition existingObject :: "TrackedObject list \<Rightarrow> Detection \<Rightarrow> TrackedObject option" where
  "existingObject prevObjects pred = find (within_gate pred) prevObjects"

text \<open>
  \<open>positions.push(\<dots>)\<close> on the copy of the history, then one \<open>positions.shift()\<close> when
  the length exceeds \<open>POSITION_HISTORY\<close>.
\<close>

definition push_position :: "Position list \<Rightarrow> Position \<Rightarrow> Position list" where
  "push_position history p =
     (let pushed = history @ [p]
      in if length pushed > POSITION_HISTORY then tl pushed else pushed)"

text \<open>The template literal \<open>`${pred.class}-${Math.random()}`\<close>, given the rendered draw.\<close>

definition new_id :: "Detection \<Rightarrow> string \<Rightarrow> string" where
  "new_id pred r = class' pred @ ''-'' @ r"

text \<open>
  The callback of \<open>predictions.map\<close>. \<open>Date.now()\<close> is an integer number of milliseconds.
  The source of randomness is a stream \<open>random\<close> of rendered draws; \<open>k\<close> counts the calls
  of \<open>Math.random()\<close> made so far, and a call is made only when \<open>existingObject?.id\<close> is
  falsy (no match, or a matched track whose id is the empty string).
\<close>

definition track :: "TrackedObject list \<Rightarrow> int \<Rightarrow> (nat \<Rightarrow> string) \<Rightarrow> Detection \<Rightarrow> nat
    \<Rightarrow> TrackedObject \<times> nat" where
  "track prevObjects currentTime random pred k =
     (let found = existingObject prevObjects pred;
          history = push_position (case found of None \<Rightarrow> [] | Some obj \<Rightarrow> positions obj)
                      \<lparr>x = centerX (bbox pred), y = centerY (bbox pred),
                       timestamp = Num (of_int currentTime)\<rparr>;
          v = calculateSpeed history;
          a = determineAction history v;
          reused = (case found of None \<Rightarrow> [] | Some obj \<Rightarrow> id' obj)
      in (\<lparr>bbox = bbox pred, class' = class' pred, score = score pred,
           id' = (if reused \<noteq> [] then reused else new_id pred (random k)),
           positions = history, speed = v, action = a,
           lastUpdate = Num (of_int currentTime)\<rparr>,
          if reused \<noteq> [] then k else Suc k))"

text \<open>\<open>predictions.map\<close>, in the detector's order; \<open>prevObjects\<close> is the same for every call.\<close>

fun updatedObjects :: "TrackedObject list \<Rightarrow> int \<Rightarrow> (nat \<Rightarrow> string) \<Rightarrow> Detection list \<Rightarrow> nat
    \<Rightarrow> TrackedObject list \<times> nat" where
  "updatedObjects prevObjects currentTime random [] k = ([], k)"
| "updatedObjects prevObjects currentTime random (pred # preds) k =
     (let (obj, k1) = track prevObjects currentTime random pred k;
          (objs, k2) = updatedObjects prevObjects currentTime random preds k1
      in (obj # objs, k2))"

text \<open>The state updater given to \<open>setTrackedObjects\<close>: map, then the staleness filter.\<close>

definition detection_cycle :: "TrackedObject list \<Rightarrow> int \<Rightarrow> (nat \<Rightarrow> string) \<Rightarrow> Detection list
    \<Rightarrow> nat \<Rightarrow> TrackedObject list \<times> nat" where
  "detection_cycle prevObjects currentTime random predictions k =
     (let (objs, k1) = updatedObjects prevObjects currentTime random predictions k
      in (filter (\<lambda>obj. num_lt (num_sub (Num (of_int currentTime)) (lastUpdate obj))
                          OBJECT_TIMEOUT) objs,
          k1))"

text \<open>
  Successive cycles, each with the detector's list and the clock reading of that cycle;
  the result lists the track set published after each cycle. The component starts with
  \<open>useState([])\<close>, the empty track set.
\<close>

fun run :: "(nat \<Rightarrow> string) \<Rightarrow> TrackedObject list \<Rightarrow> nat \<Rightarrow> (Detection list \<times> int) list
    \<Rightarrow> TrackedObject list list" where
  "run random prevObjects k [] = []"
| "run random prevObjects k ((predictions, currentTime) # rest) =
     (let (objs, k1) = detection_cycle prevObjects currentTime random predictions k
      in objs # run random objs k1 rest)"

section \<open>The specification's reading of the association\<close>

text \<open>Center point of a bounding box.\<close>

definition center :: "number list \<Rightarrow> number \<times> number" where
  "center b = (centerX b, centerY b)"

text \<open>
  The spatial gate in the specification's words: identical class, both centers are
  numbers, and their difference is less than 50px in absolute value on each axis
  separately. The difference is the double the subtraction gives.
\<close>

definition gate :: "Detection \<Rightarrow> TrackedObject \<Rightarrow> bool" where
  "gate pred obj \<longleftrightarrow>
     class' obj = class' pred
     \<and> (case (center (bbox pred), center (bbox obj)) of
          ((Num px, Num py), (Num ox, Num oy)) \<Rightarrow>
            \<bar>dbl (ox - px)\<bar> < 50 \<and> \<bar>dbl (oy - py)\<bar> < 50
        | _ \<Rightarrow> False)"

text \<open>
  The ids newly drawn in one cycle, in the order of the detections: one for every
  detection that reuses no id. \<open>run_drawn_ids\<close> lists those of successive cycles.
\<close>

fun drawn_ids :: "TrackedObject list \<Rightarrow> (nat \<Rightarrow> string) \<Rightarrow> Detection list \<Rightarrow> nat
    \<Rightarrow> string list" where
  "drawn_ids prevObjects random [] k = []"
| "drawn_ids prevObjects random (pred # preds) k =
     (case existingObject prevObjects pred of
        None \<Rightarrow> new_id pred (random k) # drawn_ids prevObjects random preds (Suc k)
      | Some obj \<Rightarrow>
          if id' obj \<noteq> [] then drawn_ids prevObjects random preds k
          else new_id pred (random k) # drawn_ids prevObjects random preds (Suc k))"

fun run_drawn_ids :: "(nat \<Rightarrow> string) \<Rightarrow> TrackedObject list \<Rightarrow> nat
    \<Rightarrow> (Detection list \<times> int) list \<Rightarrow> string list" where
  "run_drawn_ids random prevObjects k [] = []"
| "run_drawn_ids random prevObjects k ((predictions, currentTime) # rest) =
     (let (objs, k1) = detection_cycle prevObjects currentTime random predictions k
      in drawn_ids prevObjects random predictions k @ run_drawn_ids random objs k1 rest)"

text \<open>A track without its id: what two runs that differ in the random draws agree on.\<close>

definition forget_id :: "TrackedObject \<Rightarrow> TrackedObject" where
  "forget_id obj = obj\<lparr>id' := []\<rparr>"


text \<open>Concrete inputs for the examples: a stream of distinct draws, and detections.\<close>

definition draws :: "nat \<Rightarrow> string" where
  "draws n = ''0.'' @ replicate (Suc n) (CHR ''7'')"

definition person_at :: "real \<Rightarrow> real \<Rightarrow> Detection" where
  "person_at a b =
     \<lparr>bbox = [Num (a - 20), Num (b - 40), Num 40, Num 80], class' = ''person'',
      score = Num (9 / 10)\<rparr>"

definition other_draws :: "nat \<Rightarrow> string" where
  "other_draws n = ''0.'' @ replicate (Suc n) (CHR ''3'')"

text \<open>A person whose bounding box has its top-left corner at the given point.\<close>

definition person_box :: "real \<Rightarrow> real \<Rightarrow> Detection" where
  "person_box a b =
     \<lparr>bbox = [Num a, Num b, Num 40, Num 80], class' = ''person'', score = Num (9 / 10)\<rparr>"

text \<open>A stream of draws that repeats after three.\<close>

definition cyclic_draws :: "nat \<Rightarrow> string" where
  "cyclic_draws n = [''0.1'', ''0.2'', ''0.3''] ! (n mod 3)"

text \<open>Four cycles, each with one person far from where the previous one stood.\<close>

definition wandering_frames :: "(Detection list \<times> int) list" where
  "wandering_frames =
     [([person_at 100 100], 0),
      ([person_at 300 100], 33),
      ([person_at 500 100], 66),
      ([person_at 100 300], 99)]"

text \<open>A history that fills the buffer: 15 samples, one every 33ms.\<close>

definition full_history :: "Position list" where
  "full_history = map (\<lambda>i. sample (real i, 0, 33 * real i)) [0..<15]"

text \<open>
  Three cycles: one person; then two people close to where the first one stood; then one
  person near the first of the two.
\<close>

definition crowded_frames :: "(Detection list \<times> int) list" where
  "crowded_frames =
     [([person_at 120 100], 0),
      ([person_at 100 100, person_at 140 100], 33),
      ([person_at 60 100], 66)]"



section \<open>Properties of the rounding\<close>

lemma rne_of_int [simp]: "rne (of_int n) = n"
  by (simp add: rne_def)

lemma rne_bounds: "\<lfloor>v\<rfloor> \<le> rne v" "rne v \<le> \<lfloor>v\<rfloor> + 1"
  by (simp_all add: rne_def Let_def)

lemma rne_mono: assumes "v \<le> w" shows "rne v \<le> rne w"
proof (cases "\<lfloor>v\<rfloor> = \<lfloor>w\<rfloor>")
  case True
  with assms have "v - of_int \<lfloor>v\<rfloor> \<le> w - of_int \<lfloor>w\<rfloor>" by simp
  with True show ?thesis by (simp add: rne_def Let_def)
next
  case False
  with assms have "\<lfloor>v\<rfloor> < \<lfloor>w\<rfloor>" using floor_mono [of v w] by linarith
  with rne_bounds(2) [of v] rne_bounds(1) [of w] show ?thesis by linarith
qed

lemma powr_powi: "(2::real) powr (of_int k) = 2 powi k"
  by (simp add: powr_real_of_int')

lemma powr_powi_Suc: "(2::real) powr (of_int k + 1) = 2 powi (k + 1)"
proof -
  have "(of_int k + 1 :: real) = of_int (k + 1)" by simp
  then show ?thesis by (simp only: powr_powi)
qed

lemma exponent_eq:
  assumes "2 powi e \<le> \<bar>v\<bar>" and "\<bar>v\<bar> < 2 powi (e + 1)"
  shows "\<lfloor>log 2 \<bar>v\<bar>\<rfloor> = e"
proof -
  have "0 < (2::real) powi e" by simp
  with assms(1) have p: "0 < \<bar>v\<bar>" by linarith
  from assms show ?thesis
    using floor_log_eq_powr_iff [of "\<bar>v\<bar>" 2 e] p by (simp add: powr_powi powr_powi_Suc)
qed

lemma exponent_bounds:
  assumes "v \<noteq> 0"
  shows "2 powi \<lfloor>log 2 \<bar>v\<bar>\<rfloor> \<le> \<bar>v\<bar>" and "\<bar>v\<bar> < 2 powi (\<lfloor>log 2 \<bar>v\<bar>\<rfloor> + 1)"
proof -
  let ?e = "\<lfloor>log 2 \<bar>v\<bar>\<rfloor>"
  have p: "0 < \<bar>v\<bar>" using assms by simp
  from floor_log_eq_powr_iff [of "\<bar>v\<bar>" 2 ?e] p
  show "2 powi ?e \<le> \<bar>v\<bar>" and "\<bar>v\<bar> < 2 powi (?e + 1)"
    by (simp_all add: powr_powi powr_powi_Suc)
qed

lemma dbl_eval:
  assumes "2 powi e \<le> \<bar>v\<bar>" and "\<bar>v\<bar> < 2 powi (e + 1)"
  shows "dbl v = 2 powi (e - 52) * of_int (rne (v / 2 powi (e - 52)))"
proof -
  have "0 < (2::real) powi e" by simp
  with assms(1) have "0 < \<bar>v\<bar>" by linarith
  then have "v \<noteq> 0" by auto
  then show ?thesis by (simp add: dbl_def ulp_def exponent_eq [OF assms])
qed

lemma dbl_pos_bounds:
  assumes "0 < v"
  shows "2 powi \<lfloor>log 2 v\<rfloor> \<le> dbl v" and "dbl v \<le> 2 powi (\<lfloor>log 2 v\<rfloor> + 1)"
proof -
  let ?e = "\<lfloor>log 2 v\<rfloor>"
  let ?u = "(2::real) powi (?e - 52)"
  from assms have nz: "v \<noteq> 0" and av: "\<bar>v\<bar> = v" by simp_all
  from exponent_bounds [OF nz] av have b: "2 powi ?e \<le> v" "v < 2 powi (?e + 1)" by simp_all
  have u: "0 < ?u" by simp
  have r: "dbl v = ?u * of_int (rne (v / ?u))"
    using nz by (simp add: dbl_def ulp_def av)
  have e1: "2 powi ?e = ?u * 2 ^ 52"
  proof -
    have "(2::real) powi (?e - 52 + 52) = ?u * 2 powi 52" by (rule power_int_add) simp
    then show ?thesis by simp
  qed
  have e2: "2 powi (?e + 1) = ?u * 2 ^ 53"
  proof -
    have "(2::real) powi (?e - 52 + 53) = ?u * 2 powi 53" by (rule power_int_add) simp
    moreover have "?e - 52 + 53 = ?e + 1" by simp
    ultimately show ?thesis by simp
  qed
  from b(1) u have "2 ^ 52 \<le> v / ?u" by (simp add: e1 pos_le_divide_eq mult.commute)
  then have "rne (of_int (2 ^ 52)) \<le> rne (v / ?u)" by (intro rne_mono) simp
  then have "(2 ^ 52 :: int) \<le> rne (v / ?u)" by (simp only: rne_of_int)
  then have "(of_int (2 ^ 52 :: int) :: real) \<le> of_int (rne (v / ?u))" by (subst of_int_le_iff)
  then have "(2 ^ 52 :: real) \<le> of_int (rne (v / ?u))" by simp
  with u have "?u * 2 ^ 52 \<le> ?u * of_int (rne (v / ?u))" by (intro mult_left_mono) simp_all
  then show "2 powi ?e \<le> dbl v" by (simp only: r e1)
  from b(2) u have "v / ?u \<le> 2 ^ 53" by (simp add: e2 pos_divide_le_eq mult.commute)
  then have "rne (v / ?u) \<le> rne (of_int (2 ^ 53))" by (intro rne_mono) simp
  then have "rne (v / ?u) \<le> (2 ^ 53 :: int)" by (simp only: rne_of_int)
  then have "(of_int (rne (v / ?u)) :: real) \<le> of_int (2 ^ 53 :: int)" by (subst of_int_le_iff)
  then have "of_int (rne (v / ?u)) \<le> (2 ^ 53 :: real)" by simp
  with u have "?u * of_int (rne (v / ?u)) \<le> ?u * 2 ^ 53" by (intro mult_left_mono) simp_all
  then show "dbl v \<le> 2 powi (?e + 1)" by (simp only: r e2)
qed

lemma dbl_pos: "0 < v \<Longrightarrow> 0 < dbl v"
  using dbl_pos_bounds(1) [of v] zero_less_power_int [of "2::real" "\<lfloor>log 2 v\<rfloor>"] by linarith

lemma dbl_mono_pos:
  assumes "0 < v" and "v \<le> w"
  shows "dbl v \<le> dbl w"
proof (cases "\<lfloor>log 2 v\<rfloor> = \<lfloor>log 2 w\<rfloor>")
  case True
  let ?u = "(2::real) powi (\<lfloor>log 2 w\<rfloor> - 52)"
  from assms have w: "0 < w" by simp
  have u: "0 < ?u" by simp
  from assms(2) u have "v / ?u \<le> w / ?u" by (simp add: divide_right_mono)
  then have "rne (v / ?u) \<le> rne (w / ?u)" by (rule rne_mono)
  then have "(of_int (rne (v / ?u)) :: real) \<le> of_int (rne (w / ?u))" by simp
  with u have "?u * of_int (rne (v / ?u)) \<le> ?u * of_int (rne (w / ?u))"
    by (intro mult_left_mono) simp_all
  with assms(1) w True show ?thesis by (simp add: dbl_def ulp_def)
next
  case False
  from assms have w: "0 < w" by simp
  from assms have "log 2 v \<le> log 2 w" by simp
  then have "\<lfloor>log 2 v\<rfloor> \<le> \<lfloor>log 2 w\<rfloor>" by (rule floor_mono)
  with False have "\<lfloor>log 2 v\<rfloor> + 1 \<le> \<lfloor>log 2 w\<rfloor>" by simp
  then have "(2::real) powi (\<lfloor>log 2 v\<rfloor> + 1) \<le> 2 powi \<lfloor>log 2 w\<rfloor>"
    by (intro power_int_increasing) simp_all
  with dbl_pos_bounds(2) [OF assms(1)] dbl_pos_bounds(1) [OF w] show ?thesis by linarith
qed

lemma dbl_of_int:
  assumes "\<bar>n\<bar> < 2 ^ 53"
  shows "dbl (of_int n) = of_int n"
proof (cases "n = 0")
  case True
  then show ?thesis by (simp add: dbl_def)
next
  case False
  let ?v = "of_int n :: real"
  let ?e = "\<lfloor>log 2 \<bar>?v\<bar>\<rfloor>"
  from False have nz: "?v \<noteq> 0" by simp
  from assms have "(of_int \<bar>n\<bar> :: real) < of_int (2 ^ 53 :: int)" by (subst of_int_less_iff)
  then have "\<bar>?v\<bar> < 2 ^ 53" by simp
  with exponent_bounds(1) [OF nz] have "(2::real) powi ?e < 2 ^ 53" by linarith
  then have "(2::real) powi ?e < 2 powi 53" by simp
  from power_int_le_imp_less_exp [OF _ this] have e: "?e < 53" by simp
  define k where "k = nat (52 - ?e)"
  from e have "?e - 52 = - int k" by (simp add: k_def)
  then have u: "(2::real) powi (?e - 52) = 1 / 2 ^ k"
    by (simp add: power_int_minus divide_inverse)
  have "?v / (2 powi (?e - 52)) = of_int (n * 2 ^ k)" by (simp add: u)
  then have "rne (?v / (2 powi (?e - 52))) = n * 2 ^ k" by (simp only: rne_of_int)
  with nz show ?thesis by (simp add: dbl_def ulp_def u)
qed

lemma dbl_numeral [simp]:
  "numeral w < (2 ^ 53 :: int) \<Longrightarrow> dbl (numeral w) = numeral w"
  "numeral w < (2 ^ 53 :: int) \<Longrightarrow> dbl (- numeral w) = - numeral w"
  "dbl 0 = 0" "dbl 1 = 1" "dbl (- 1) = - 1"
  using dbl_of_int [of "numeral w"] dbl_of_int [of "- numeral w"] dbl_of_int [of 1]
    dbl_of_int [of "- 1"]
  by (simp_all add: dbl_def)

lemma dbl_nonneg: "0 \<le> v \<Longrightarrow> 0 \<le> dbl v"
  using dbl_pos [of v] by (cases "v = 0") (simp_all add: dbl_def less_eq_real_def)

section \<open>Properties of the kinematics\<close>

lemma foldl_Num:
  "foldl num_add (Num a) (map Num rs) = Num (foldl (\<lambda>s r. dbl (s + r)) a rs)"
  by (induction rs arbitrary: a) simp_all

lemma slice_last_window: "slice_last n xs = last_window n xs"
  by (simp add: slice_last_def last_window_def take_rev)

lemma num_abs_magnitude: "num_abs v = magnitude v"
  by (cases v) (simp_all add: abs_if)

lemma movement_loop_acc:
  "movement_loop ps (v, h) =
     (foldl num_add v (map (\<lambda>(prev, cur). num_abs (num_sub (y cur) (y prev))) (consecutive_pairs ps)),
      foldl num_add h (map (\<lambda>(prev, cur). num_abs (num_sub (x cur) (x prev))) (consecutive_pairs ps)))"
  by (induction ps "(v, h)" arbitrary: v h rule: movement_loop.induct)
     (simp_all add: consecutive_pairs_def)

lemma movement_loop_sums:
  "movement_loop (slice_last 3 ps) (Num 0, Num 0) = (verticalMovement ps, horizontalMovement ps)"
  by (simp add: movement_loop_acc verticalMovement_def horizontalMovement_def total_def
      foldl_conv_fold slice_last_window num_abs_magnitude)

lemma threshold_twice: "num_mul MIN_MOVEMENT_THRESHOLD (Num 2) = Num 4"
  by (simp add: MIN_MOVEMENT_THRESHOLD_def)

lemma determineAction_eq_table:
  "determineAction ps s = action_table (length ps) s (verticalMovement ps) (horizontalMovement ps)"
  by (simp add: determineAction_def action_table_def movement_loop_sums threshold_twice)

lemma speeds_loop_filter:
  "speeds_loop ps acc =
     acc @ map (\<lambda>(prev, cur). speed_of prev cur)
             (filter (\<lambda>(prev, cur). kept prev cur) (consecutive_pairs ps))"
  by (induction ps acc rule: speeds_loop.induct)
     (simp_all add: consecutive_pairs_def kept_def)

lemma calculateSpeed_smoothed:
  "calculateSpeed ps =
     smoothed (map (\<lambda>(prev, cur). speed_of prev cur)
                 (filter (\<lambda>(prev, cur). kept prev cur) (consecutive_pairs ps)))"
proof (cases "length ps < 2")
  case True
  then have "consecutive_pairs ps = []"
    by (cases ps; cases "tl ps") (simp_all add: consecutive_pairs_def)
  with True show ?thesis
    by (simp add: calculateSpeed_def smoothed_def)
next
  case False
  then show ?thesis
    by (simp add: calculateSpeed_def smoothed_def speeds_loop_filter Let_def)
qed

lemma consecutive_pairs_map:
  "consecutive_pairs (map f xs) = map (\<lambda>(a, b). (f a, f b)) (consecutive_pairs xs)"
  by (simp add: consecutive_pairs_def zip_map_map flip: map_tl)

lemma distance_sample: "distance (sample p) (sample q) = Num (pixel_distance p q)"
proof -
  obtain a1 b1 t1 a2 b2 t2 where pq: "p = (a1, b1, t1)" "q = (a2, b2, t2)"
    by (cases p; cases q) auto
  have "0 \<le> dbl (dbl (a2 - a1) * dbl (a2 - a1))" "0 \<le> dbl (dbl (b2 - b1) * dbl (b2 - b1))"
    by (simp_all add: dbl_nonneg)
  then have "0 \<le> dbl (dbl (dbl (a2 - a1) * dbl (a2 - a1)) + dbl (dbl (b2 - b1) * dbl (b2 - b1)))"
    by (intro dbl_nonneg) simp
  then show ?thesis
    by (simp add: distance_def sample_def pixel_distance_def pq not_less)
qed

lemma timeDiff_sample: "timeDiff (sample p) (sample q) = Num (elapsed_seconds p q)"
  by (cases p; cases q) (simp add: timeDiff_def sample_def elapsed_seconds_def)

lemma speed_of_sample:
  "elapsed_seconds p q \<noteq> 0 \<Longrightarrow> speed_of (sample p) (sample q) = Num (instantaneous_speed p q)"
  by (simp add: speed_of_def distance_sample timeDiff_sample instantaneous_speed_def
      PIXEL_TO_METER_def MS_TO_KMH_def)

lemma kept_sample: "kept (sample p) (sample q) \<longleftrightarrow> survives p q"
  by (cases "elapsed_seconds p q = 0")
     (auto simp add: kept_def survives_def distance_sample timeDiff_sample speed_of_sample num_gt_def
      MIN_MOVEMENT_THRESHOLD_def MAX_SPEED_THRESHOLD_def)

lemma survives_speed: "survives p q \<Longrightarrow> speed_of (sample p) (sample q) = Num (instantaneous_speed p q)"
  by (simp add: survives_def speed_of_sample)

lemma smoothed_Num:
  "smoothed (map Num rs) = Num (of_int (round (average (last_window 3 rs))))"
proof (cases "rs = []")
  case True
  then show ?thesis by (simp add: smoothed_def average_def last_window_def)
next
  case False
  then have ne: "slice_last 3 rs \<noteq> []" by (cases rs) (simp_all add: slice_last_def)
  have sl: "slice_last 3 (map Num rs) = map Num (slice_last 3 rs)"
    by (simp add: slice_last_def drop_map)
  have a: "foldl num_add (Num 0) (map Num (slice_last 3 rs))
             = Num (fold (\<lambda>r s. dbl (s + r)) (slice_last 3 rs) 0)"
    by (simp only: foldl_Num) (simp add: foldl_conv_fold)
  from False ne show ?thesis
    by (simp add: smoothed_def SPEED_SMOOTHING_WINDOW_def sl a average_def round_def
        flip: slice_last_window)
qed

lemma calculateSpeed_all_survive:
  assumes "\<forall>(p, q) \<in> set (consecutive_pairs ps). survives p q"
  shows "calculateSpeed (map sample ps) =
           Num (of_int (round (average (last_window 3
             (map (\<lambda>(p, q). instantaneous_speed p q) (consecutive_pairs ps))))))"
proof -
  have f: "filter (\<lambda>(p, q). survives p q) (consecutive_pairs ps) = consecutive_pairs ps"
    using assms by (auto simp: filter_id_conv)
  have "map (\<lambda>(prev, cur). speed_of prev cur)
          (filter (\<lambda>(prev, cur). kept prev cur) (consecutive_pairs (map sample ps)))
        = map (\<lambda>(p, q). speed_of (sample p) (sample q))
            (filter (\<lambda>(p, q). survives p q) (consecutive_pairs ps))"
    by (simp add: consecutive_pairs_map filter_map comp_def case_prod_unfold kept_sample)
  also have "\<dots> = map Num (map (\<lambda>(p, q). instantaneous_speed p q) (consecutive_pairs ps))"
    using assms by (auto simp: f survives_speed)
  finally show ?thesis
    by (simp only: calculateSpeed_smoothed smoothed_Num)
qed

lemma guard_finite:
  assumes "num_gt (distance prev cur) MIN_MOVEMENT_THRESHOLD" "num_gt (timeDiff prev cur) (Num 0)"
  shows "\<exists>d dt. distance prev cur = Num d \<and> 2 < d \<and> timeDiff prev cur = Num dt \<and> 0 < dt
           \<and> speed_of prev cur = Num (dbl (dbl (dbl (d * dbl (15 / 1000)) / dt) * dbl (36 / 10)))"
proof -
  from assms(1) obtain d where d: "distance prev cur = Num d" "2 < d"
    by (cases "distance prev cur") (simp_all add: num_gt_def MIN_MOVEMENT_THRESHOLD_def)
  from assms(2) obtain dt where dt: "timeDiff prev cur = Num dt" "0 < dt"
    by (cases "timeDiff prev cur") (simp_all add: num_gt_def)
  from dt have "speed_of prev cur = Num (dbl (dbl (dbl (d * dbl (15 / 1000)) / dt) * dbl (36 / 10)))"
    by (simp add: speed_of_def d PIXEL_TO_METER_def MS_TO_KMH_def)
  with d dt show ?thesis by blast
qed

lemma kept_speed_range:
  assumes "kept prev cur"
  shows "\<exists>r. speed_of prev cur = Num r \<and> 0 < r \<and> r < 30"
proof -
  from assms obtain d dt where
    h: "2 < d" "0 < dt"
       "speed_of prev cur = Num (dbl (dbl (dbl (d * dbl (15 / 1000)) / dt) * dbl (36 / 10)))"
    using guard_finite [of prev cur] by (auto simp: kept_def)
  have c: "0 < dbl (15 / 1000)" "0 < dbl (36 / 10)" by (simp_all add: dbl_pos)
  from h(1) c(1) have "0 < d * dbl (15 / 1000)" by simp
  then have "0 < dbl (d * dbl (15 / 1000))" by (rule dbl_pos)
  with h(2) have "0 < dbl (d * dbl (15 / 1000)) / dt" by simp
  then have "0 < dbl (dbl (d * dbl (15 / 1000)) / dt)" by (rule dbl_pos)
  with c(2) have "0 < dbl (dbl (d * dbl (15 / 1000)) / dt) * dbl (36 / 10)" by simp
  then have p: "0 < dbl (dbl (dbl (d * dbl (15 / 1000)) / dt) * dbl (36 / 10))"
    by (rule dbl_pos)
  from assms have "num_lt (speed_of prev cur) (Num 30)"
    by (simp add: kept_def MAX_SPEED_THRESHOLD_def)
  with h(3) have "dbl (dbl (dbl (d * dbl (15 / 1000)) / dt) * dbl (36 / 10)) < 30" by simp
  with h(3) p show ?thesis by blast
qed

lemma kept_speeds_real:
  "\<exists>rs. map (\<lambda>(prev, cur). speed_of prev cur) (filter (\<lambda>(prev, cur). kept prev cur) prs) = map Num rs
        \<and> (\<forall>r \<in> set rs. 0 < r \<and> r < 30)"
proof (induction prs)
  case Nil
  show ?case by simp
next
  case (Cons pr prs)
  then obtain rs where rs:
    "map (\<lambda>(prev, cur). speed_of prev cur) (filter (\<lambda>(prev, cur). kept prev cur) prs) = map Num rs"
    "\<forall>r \<in> set rs. 0 < r \<and> r < 30"
    by blast
  obtain prev cur where pr: "pr = (prev, cur)" by (cases pr)
  show ?case
  proof (cases "kept prev cur")
    case True
    from kept_speed_range [OF True] obtain r where r: "speed_of prev cur = Num r" "0 < r" "r < 30"
      by blast
    have "map (\<lambda>(prev, cur). speed_of prev cur) (filter (\<lambda>(prev, cur). kept prev cur) (pr # prs))
            = map Num (r # rs)"
      using True r rs by (simp add: pr)
    moreover have "\<forall>r' \<in> set (r # rs). 0 < r' \<and> r' < 30" using r rs by simp
    ultimately show ?thesis by blast
  next
    case False
    with rs show ?thesis by (auto simp: pr)
  qed
qed

lemma dbl_small_int: "m \<le> 3 \<Longrightarrow> dbl (30 * real m) = 30 * real m"
proof -
  assume "m \<le> 3"
  then have "\<bar>30 * int m\<bar> < 2 ^ 53" by simp
  from dbl_of_int [OF this] show ?thesis by simp
qed

lemma window_sum_bounds:
  assumes "\<forall>r \<in> set rs. 0 < r \<and> r < 30" and "0 \<le> a" and "a \<le> 30 * real m"
    and "m + length rs \<le> 3"
  shows "(rs \<noteq> [] \<or> 0 < a \<longrightarrow> 0 < foldl (\<lambda>s r. dbl (s + r)) a rs)
       \<and> foldl (\<lambda>s r. dbl (s + r)) a rs \<le> 30 * real (m + length rs)"
  using assms
proof (induction rs arbitrary: a m)
  case Nil
  then show ?case by simp
next
  case (Cons r rs)
  from Cons.prems have r: "0 < r" "r < 30" by simp_all
  with Cons.prems(2) have p: "0 < a + r" by simp
  then have 1: "0 < dbl (a + r)" by (rule dbl_pos)
  from Cons.prems(4) have m: "Suc m \<le> 3" by simp
  from r Cons.prems(3) have "a + r \<le> 30 * real (Suc m)" by simp
  with p have "dbl (a + r) \<le> dbl (30 * real (Suc m))" by (rule dbl_mono_pos)
  with m have 2: "dbl (a + r) \<le> 30 * real (Suc m)" by (simp only: dbl_small_int)
  from Cons.prems(1) have 3: "\<forall>r \<in> set rs. 0 < r \<and> r < 30" by simp
  from Cons.prems(4) have 4: "Suc m + length rs \<le> 3" by simp
  from 1 have 5: "0 \<le> dbl (a + r)" by simp
  from Cons.IH [OF 3 5 2 4] 1 show ?case by simp
qed

lemma smoothed_range:
  assumes "\<forall>r \<in> set rs. 0 < r \<and> r < 30"
  shows "\<exists>k. smoothed (map Num rs) = Num (of_int k) \<and> 0 \<le> k \<and> k \<le> 30"
proof (cases "rs = []")
  case True
  then have "smoothed (map Num rs) = Num (of_int 0)" by (simp add: smoothed_def)
  then show ?thesis by (intro exI [of _ 0]) simp
next
  case False
  let ?w = "slice_last 3 rs"
  let ?s = "foldl (\<lambda>s r. dbl (s + r)) 0 ?w"
  from False have ne: "?w \<noteq> []" by (cases rs) (simp_all add: slice_last_def)
  then have n: "0 < real (length ?w)" by simp
  have len: "0 + length ?w \<le> 3" by (simp add: slice_last_def)
  have "set ?w \<subseteq> set rs" by (simp add: slice_last_def set_drop_subset)
  with assms have b: "\<forall>r \<in> set ?w. 0 < r \<and> r < 30" by blast
  from window_sum_bounds [OF b _ _ len] ne
  have s: "0 < ?s" "?s \<le> 30 * real (length ?w)" by simp_all
  from s(1) n have q: "0 < ?s / real (length ?w)" by simp
  from s(2) n have "?s / real (length ?w) \<le> 30" by (simp add: pos_divide_le_eq)
  with q have "dbl (?s / real (length ?w)) \<le> dbl 30" by (rule dbl_mono_pos)
  then have u: "dbl (?s / real (length ?w)) \<le> 30" by simp
  from q have l: "0 < dbl (?s / real (length ?w))" by (rule dbl_pos)
  have sl: "slice_last 3 (map Num rs) = map Num ?w"
    by (simp add: slice_last_def drop_map)
  from False ne have "smoothed (map Num rs)
      = Num (of_int \<lfloor>dbl (?s / real (length ?w)) + 1 / 2\<rfloor>)"
    by (simp add: smoothed_def SPEED_SMOOTHING_WINDOW_def sl foldl_Num)
  moreover from l have "0 \<le> \<lfloor>dbl (?s / real (length ?w)) + 1 / 2\<rfloor>" by simp
  moreover from u have "\<lfloor>dbl (?s / real (length ?w)) + 1 / 2\<rfloor> \<le> 30"
    by (simp add: floor_le_iff)
  ultimately show ?thesis by blast
qed

lemma calculateSpeed_range: "\<exists>k. calculateSpeed ps = Num (of_int k) \<and> 0 \<le> k \<and> k \<le> 30"
proof -
  obtain rs where rs:
    "map (\<lambda>(prev, cur). speed_of prev cur)
       (filter (\<lambda>(prev, cur). kept prev cur) (consecutive_pairs ps)) = map Num rs"
    "\<forall>r \<in> set rs. 0 < r \<and> r < 30"
    using kept_speeds_real by blast
  from smoothed_range [OF rs(2)] show ?thesis
    by (simp add: calculateSpeed_smoothed rs(1))
qed

lemma speeds_loop_range:
  "\<forall>s \<in> set (speeds_loop ps []). \<exists>r. s = Num r \<and> 0 < r \<and> r < 30"
  using kept_speed_range by (fastforce simp: speeds_loop_filter)

lemma discarded_not_kept:
  "num_le (distance prev cur) (Num 2) \<or> num_le (timeDiff prev cur) (Num 0)
     \<or> num_le (Num 30) (speed_of prev cur) \<Longrightarrow> \<not> kept prev cur"
  by (cases "distance prev cur"; cases "timeDiff prev cur"; cases "speed_of prev cur")
     (auto simp: kept_def num_gt_def MIN_MOVEMENT_THRESHOLD_def MAX_SPEED_THRESHOLD_def)

lemma none_kept_zero:
  assumes "\<forall>(prev, cur) \<in> set (consecutive_pairs ps). \<not> kept prev cur"
  shows "calculateSpeed ps = Num 0"
proof -
  from assms have "filter (\<lambda>(prev, cur). kept prev cur) (consecutive_pairs ps) = []"
    by (auto simp: filter_empty_conv)
  then show ?thesis by (simp add: calculateSpeed_smoothed smoothed_def)
qed

section \<open>Properties of the detection cycle\<close>

lemma track_fields [simp]:
  "bbox (fst (track prev now rnd pred k)) = bbox pred"
  "class' (fst (track prev now rnd pred k)) = class' pred"
  "score (fst (track prev now rnd pred k)) = score pred"
  "lastUpdate (fst (track prev now rnd pred k)) = Num (of_int now)"
  by (simp_all add: track_def Let_def)

lemma track_positions:
  "positions (fst (track prev now rnd pred k)) =
     push_position (case existingObject prev pred of None \<Rightarrow> [] | Some obj \<Rightarrow> positions obj)
       \<lparr>x = centerX (bbox pred), y = centerY (bbox pred), timestamp = Num (of_int now)\<rparr>"
  by (simp add: track_def Let_def)

lemma updatedObjects_members:
  "obj \<in> set (fst (updatedObjects prev now rnd preds k)) \<Longrightarrow>
     \<exists>pred j. pred \<in> set preds \<and> obj = fst (track prev now rnd pred j)"
proof (induction preds arbitrary: k)
  case Nil
  then show ?case by simp
next
  case (Cons pred preds)
  obtain o1 k1 where t: "track prev now rnd pred k = (o1, k1)" by (cases "track prev now rnd pred k")
  from Cons.prems t have "obj = o1 \<or> obj \<in> set (fst (updatedObjects prev now rnd preds k1))"
    by (auto simp: Let_def split: prod.splits)
  then show ?case
  proof
    assume "obj = o1"
    with t have "obj = fst (track prev now rnd pred k)" by simp
    then show ?thesis by (intro exI [of _ pred] exI [of _ k]) simp
  next
    assume "obj \<in> set (fst (updatedObjects prev now rnd preds k1))"
    from Cons.IH [OF this] show ?thesis by auto
  qed
qed

lemma updatedObjects_lastUpdate:
  "obj \<in> set (fst (updatedObjects prev now rnd preds k)) \<Longrightarrow> lastUpdate obj = Num (of_int now)"
  using updatedObjects_members [of obj prev now rnd preds k] by auto

lemma detection_cycle_eq:
  "detection_cycle prev now rnd preds k = updatedObjects prev now rnd preds k"
proof -
  obtain objs k1 where u: "updatedObjects prev now rnd preds k = (objs, k1)"
    by (cases "updatedObjects prev now rnd preds k")
  have "\<forall>obj \<in> set objs. lastUpdate obj = Num (of_int now)"
    using updatedObjects_lastUpdate [of _ prev now rnd preds k] by (simp add: u)
  then have "filter (\<lambda>obj. num_lt (num_sub (Num (of_int now)) (lastUpdate obj)) OBJECT_TIMEOUT)
          objs = objs"
    by (simp add: filter_id_conv OBJECT_TIMEOUT_def)
  then show ?thesis
    by (simp add: detection_cycle_def u)
qed

lemma push_position_length: "length (push_position h p) \<le> max (length h) POSITION_HISTORY"
  by (simp add: push_position_def Let_def)

lemma push_position_full:
  "length h = POSITION_HISTORY \<Longrightarrow> push_position h p = tl h @ [p]"
  by (cases h) (simp_all add: push_position_def POSITION_HISTORY_def)

lemma push_position_room:
  "length h < POSITION_HISTORY \<Longrightarrow> push_position h p = h @ [p]"
  by (simp add: push_position_def)

lemma existingObject_member: "existingObject prev pred = Some obj \<Longrightarrow> obj \<in> set prev"
  by (auto simp: existingObject_def find_Some_iff)

lemma track_bounded:
  assumes "\<forall>obj \<in> set prev. length (positions obj) \<le> POSITION_HISTORY"
  shows "length (positions (fst (track prev now rnd pred k))) \<le> POSITION_HISTORY"
proof (cases "existingObject prev pred")
  case None
  then show ?thesis
    using push_position_length [of "[]"] by (simp add: track_positions)
next
  case (Some obj)
  with assms have "length (positions obj) \<le> POSITION_HISTORY"
    using existingObject_member by blast
  with Some show ?thesis
    using push_position_length [of "positions obj"] by (simp add: track_positions max_def)
qed

lemma cycle_bounded:
  assumes "\<forall>obj \<in> set prev. length (positions obj) \<le> POSITION_HISTORY"
  shows "\<forall>obj \<in> set (fst (detection_cycle prev now rnd preds k)).
           length (positions obj) \<le> POSITION_HISTORY"
  using updatedObjects_members [of _ prev now rnd preds k] track_bounded [OF assms]
  by (fastforce simp: detection_cycle_eq)

lemma run_bounded:
  assumes "\<forall>obj \<in> set prev. length (positions obj) \<le> POSITION_HISTORY"
  shows "\<forall>objs \<in> set (run rnd prev k frames). \<forall>obj \<in> set objs.
           length (positions obj) \<le> POSITION_HISTORY"
  using assms
proof (induction frames arbitrary: prev k)
  case Nil
  show ?case by simp
next
  case (Cons frame frames)
  obtain preds now where f: "frame = (preds, now)" by (cases frame)
  obtain objs k1 where c: "detection_cycle prev now rnd preds k = (objs, k1)"
    by (cases "detection_cycle prev now rnd preds k")
  from cycle_bounded [OF Cons.prems, of now rnd preds k] c
  have b: "\<forall>obj \<in> set objs. length (positions obj) \<le> POSITION_HISTORY" by simp
  from Cons.IH [OF b] b show ?case by (simp add: f c)
qed

lemma within_gate_iff: "within_gate pred obj \<longleftrightarrow> gate pred obj"
proof -
  have "within_gate pred obj \<longleftrightarrow>
          class' obj = class' pred
          \<and> num_lt (num_abs (num_sub (centerX (bbox obj)) (centerX (bbox pred)))) (Num 50)
          \<and> num_lt (num_abs (num_sub (centerY (bbox obj)) (centerY (bbox pred)))) (Num 50)"
    by (simp add: within_gate_def centerX_def centerY_def)
  also have "\<dots> \<longleftrightarrow> gate pred obj"
    by (cases "centerX (bbox obj)"; cases "centerX (bbox pred)";
        cases "centerY (bbox obj)"; cases "centerY (bbox pred)")
       (simp_all add: gate_def center_def)
  finally show ?thesis .
qed

lemma existingObject_find: "existingObject prev pred = find (gate pred) prev"
proof -
  have "within_gate pred = gate pred" by (rule ext) (rule within_gate_iff)
  then show ?thesis by (simp add: existingObject_def)
qed

lemma track_id:
  "id' (fst (track prev now rnd pred k)) =
     (case existingObject prev pred of
        None \<Rightarrow> new_id pred (rnd k)
      | Some obj \<Rightarrow> if id' obj \<noteq> [] then id' obj else new_id pred (rnd k))"
  by (simp add: track_def Let_def split: option.splits)

lemma track_counter:
  "snd (track prev now rnd pred k) =
     (case existingObject prev pred of
        None \<Rightarrow> Suc k
      | Some obj \<Rightarrow> if id' obj \<noteq> [] then k else Suc k)"
  by (simp add: track_def Let_def split: option.splits)

lemma track_speed_action:
  "speed (fst (track prev now rnd pred k)) = calculateSpeed (positions (fst (track prev now rnd pred k)))"
  "action (fst (track prev now rnd pred k)) =
     determineAction (positions (fst (track prev now rnd pred k)))
       (calculateSpeed (positions (fst (track prev now rnd pred k))))"
  by (simp_all add: track_def Let_def)

lemma updatedObjects_Cons:
  "updatedObjects prev now rnd (pred # preds) k =
     (fst (track prev now rnd pred k)
        # fst (updatedObjects prev now rnd preds (snd (track prev now rnd pred k))),
      snd (updatedObjects prev now rnd preds (snd (track prev now rnd pred k))))"
  by (simp add: Let_def split: prod.splits)

lemma run_Cons:
  "run rnd prev k ((preds, now) # rest) =
     fst (updatedObjects prev now rnd preds k)
       # run rnd (fst (updatedObjects prev now rnd preds k))
           (snd (updatedObjects prev now rnd preds k)) rest"
  by (simp add: detection_cycle_eq split: prod.splits)

declare updatedObjects.simps(2) [simp del] run.simps(2) [simp del]

text \<open>Determinism up to ids\<close>

lemma within_gate_forget:
  "forget_id a = forget_id b \<Longrightarrow> within_gate d a = within_gate d b"
proof -
  assume e: "forget_id a = forget_id b"
  have "bbox a = bbox (forget_id a)" "class' a = class' (forget_id a)"
    "bbox b = bbox (forget_id b)" "class' b = class' (forget_id b)"
    by (simp_all add: forget_id_def)
  with e have "bbox a = bbox b" "class' a = class' b" by simp_all
  then show ?thesis by (simp add: within_gate_def)
qed

lemma positions_forget:
  "forget_id a = forget_id b \<Longrightarrow> positions a = positions b"
proof -
  assume e: "forget_id a = forget_id b"
  have "positions a = positions (forget_id a)" "positions b = positions (forget_id b)"
    by (simp_all add: forget_id_def)
  with e show ?thesis by simp
qed

lemma existingObject_forget:
  "map forget_id p1 = map forget_id p2 \<Longrightarrow>
     map_option forget_id (existingObject p1 d) = map_option forget_id (existingObject p2 d)"
proof (induction p1 arbitrary: p2)
  case Nil
  then show ?case by (simp add: existingObject_def)
next
  case (Cons a p1)
  then obtain b q where p2: "p2 = b # q" "forget_id a = forget_id b"
    "map forget_id p1 = map forget_id q"
    by (cases p2) auto
  from Cons.IH [OF p2(3)] within_gate_forget [OF p2(2), of d] p2(2)
  show ?case by (simp add: existingObject_def p2(1))
qed

lemma history_forget:
  assumes "map forget_id p1 = map forget_id p2"
  shows "(case existingObject p1 d of None \<Rightarrow> [] | Some obj \<Rightarrow> positions obj)
       = (case existingObject p2 d of None \<Rightarrow> [] | Some obj \<Rightarrow> positions obj)"
proof (cases "existingObject p1 d")
  case None
  with existingObject_forget [OF assms, of d] have "existingObject p2 d = None" by simp
  with None show ?thesis by simp
next
  case (Some a)
  with existingObject_forget [OF assms, of d] obtain b where
    b: "existingObject p2 d = Some b" "forget_id a = forget_id b"
    by (cases "existingObject p2 d") auto
  from positions_forget [OF b(2)] Some b(1) show ?thesis by simp
qed

lemma track_forget_eq:
  "forget_id (fst (track p now r d k)) =
     \<lparr>bbox = bbox d, class' = class' d, score = score d, id' = [],
      positions = push_position (case existingObject p d of None \<Rightarrow> [] | Some obj \<Rightarrow> positions obj)
                    \<lparr>x = centerX (bbox d), y = centerY (bbox d), timestamp = Num (of_int now)\<rparr>,
      speed = calculateSpeed
                (push_position (case existingObject p d of None \<Rightarrow> [] | Some obj \<Rightarrow> positions obj)
                    \<lparr>x = centerX (bbox d), y = centerY (bbox d), timestamp = Num (of_int now)\<rparr>),
      action = determineAction
                (push_position (case existingObject p d of None \<Rightarrow> [] | Some obj \<Rightarrow> positions obj)
                    \<lparr>x = centerX (bbox d), y = centerY (bbox d), timestamp = Num (of_int now)\<rparr>)
                (calculateSpeed
                  (push_position (case existingObject p d of None \<Rightarrow> [] | Some obj \<Rightarrow> positions obj)
                    \<lparr>x = centerX (bbox d), y = centerY (bbox d), timestamp = Num (of_int now)\<rparr>)),
      lastUpdate = Num (of_int now)\<rparr>"
  by (simp add: track_def Let_def forget_id_def)

lemma track_forget:
  assumes "map forget_id p1 = map forget_id p2"
  shows "forget_id (fst (track p1 now r1 d k1)) = forget_id (fst (track p2 now r2 d k2))"
  by (simp only: track_forget_eq history_forget [OF assms, of d])

lemma updatedObjects_forget:
  assumes "map forget_id p1 = map forget_id p2"
  shows "map forget_id (fst (updatedObjects p1 now r1 ds k1))
       = map forget_id (fst (updatedObjects p2 now r2 ds k2))"
proof (induction ds arbitrary: k1 k2)
  case Nil
  show ?case by simp
next
  case (Cons d ds)
  show ?case
    by (simp only: updatedObjects_Cons fst_conv list.map track_forget [OF assms, of now r1 d k1 r2 k2]
        Cons.IH [of "snd (track p1 now r1 d k1)" "snd (track p2 now r2 d k2)"])
qed

lemma run_forget:
  assumes "map forget_id p1 = map forget_id p2"
  shows "map (map forget_id) (run r1 p1 k1 frames) = map (map forget_id) (run r2 p2 k2 frames)"
  using assms
proof (induction frames arbitrary: p1 p2 k1 k2)
  case Nil
  show ?case by simp
next
  case (Cons frame frames)
  obtain ds now where f: "frame = (ds, now)" by (cases frame)
  note u = updatedObjects_forget [OF Cons.prems, of now r1 ds k1 r2 k2]
  from Cons.IH [OF u, of "snd (updatedObjects p1 now r1 ds k1)"
      "snd (updatedObjects p2 now r2 ds k2)"] u
  show ?case
    by (simp only: f run_Cons list.map)
qed

lemma find_only:
  assumes "trk \<in> set xs" and "P trk" and "\<forall>x \<in> set xs. P x \<longrightarrow> x = trk"
  shows "find P xs = Some trk"
  using assms
proof (induction xs)
  case Nil
  then show ?case by simp
next
  case (Cons a xs)
  show ?case
  proof (cases "P a")
    case True
    with Cons.prems(3) have "a = trk" by simp
    with True show ?thesis by simp
  next
    case False
    with Cons.prems(1,2) have "trk \<in> set xs" by auto
    moreover from Cons.prems(3) have "\<forall>x \<in> set xs. P x \<longrightarrow> x = trk" by simp
    ultimately have "find P xs = Some trk" using Cons.prems(2) by (intro Cons.IH)
    with False show ?thesis by simp
  qed
qed

lemma existingObject_empty [simp]: "existingObject [] d = None"
  by (simp add: existingObject_def)




lemma num_sub_NaN [simp]: "num_sub a NaN = NaN" "num_sub NaN a = NaN"
  by (cases a; simp)+






lemma person_at_fields [simp]:
  "bbox (person_at a b) = [Num (a - 20), Num (b - 40), Num 40, Num 80]"
  "class' (person_at a b) = ''person''"
  "score (person_at a b) = Num (9 / 10)"
  by (simp_all add: person_at_def)

lemma person_box_fields [simp]:
  "bbox (person_box a b) = [Num a, Num b, Num 40, Num 80]"
  "class' (person_box a b) = ''person''"
  "score (person_box a b) = Num (9 / 10)"
  by (simp_all add: person_box_def)

lemmas box_simps = within_gate_def centerX_def centerY_def bbox_at_def

lemma first_track:
  "id' (fst (track [] 0 draws (person_at 120 100) 0)) = ''person-0.7''"
  "snd (track [] 0 draws (person_at 120 100) 0) = 1"
  by (simp_all add: track_id track_counter new_id_def draws_def)

lemma crowd_gate:
  "within_gate (person_at 100 100) (fst (track [] 0 draws (person_at 120 100) 0))"
  "within_gate (person_at 140 100) (fst (track [] 0 draws (person_at 120 100) 0))"
  by (simp_all add: box_simps)

lemma crowd_found:
  "existingObject [fst (track [] 0 draws (person_at 120 100) 0)] (person_at 100 100)
     = Some (fst (track [] 0 draws (person_at 120 100) 0))"
  "existingObject [fst (track [] 0 draws (person_at 120 100) 0)] (person_at 140 100)
     = Some (fst (track [] 0 draws (person_at 120 100) 0))"
  by (simp_all add: existingObject_def crowd_gate)

lemma run_drawn_ids_Cons:
  "run_drawn_ids rnd prev k ((preds, now) # rest) =
     drawn_ids prev rnd preds k
       @ run_drawn_ids rnd (fst (updatedObjects prev now rnd preds k))
           (snd (updatedObjects prev now rnd preds k)) rest"
  by (simp add: detection_cycle_eq split: prod.splits)

declare run_drawn_ids.simps(2) [simp del]

lemma cycle_ids:
  "id' ` set (fst (updatedObjects prev now rnd ds k)) =
     {id' old |d old. d \<in> set ds \<and> existingObject prev d = Some old \<and> id' old \<noteq> []}
     \<union> set (drawn_ids prev rnd ds k)"
proof (induction ds arbitrary: k)
  case Nil
  show ?case by simp
next
  case (Cons d ds)
  let ?R = "\<lambda>ds. {id' old |d old. d \<in> set ds \<and> existingObject prev d = Some old \<and> id' old \<noteq> []}"
  show ?case
  proof (cases "existingObject prev d")
    case None
    then have r: "?R (d # ds) = ?R ds" by auto
    from None have "id' ` set (fst (updatedObjects prev now rnd (d # ds) k))
        = insert (new_id d (rnd k)) (id' ` set (fst (updatedObjects prev now rnd ds (Suc k))))"
      by (simp add: updatedObjects_Cons track_id track_counter)
    also have "\<dots> = insert (new_id d (rnd k)) (?R ds \<union> set (drawn_ids prev rnd ds (Suc k)))"
      by (simp only: Cons.IH)
    also have "\<dots> = ?R (d # ds) \<union> set (drawn_ids prev rnd (d # ds) k)"
      using None by (simp only: r) simp
    finally show ?thesis .
  next
    case (Some old)
    show ?thesis
    proof (cases "id' old = []")
      case True
      with Some have r: "?R (d # ds) = ?R ds" by auto
      from Some True have "id' ` set (fst (updatedObjects prev now rnd (d # ds) k))
          = insert (new_id d (rnd k)) (id' ` set (fst (updatedObjects prev now rnd ds (Suc k))))"
        by (simp add: updatedObjects_Cons track_id track_counter)
      also have "\<dots> = insert (new_id d (rnd k)) (?R ds \<union> set (drawn_ids prev rnd ds (Suc k)))"
        by (simp only: Cons.IH)
      also have "\<dots> = ?R (d # ds) \<union> set (drawn_ids prev rnd (d # ds) k)"
        using Some True by (simp only: r) simp
      finally show ?thesis .
    next
      case False
      with Some have r: "?R (d # ds) = insert (id' old) (?R ds)" by auto
      from Some False have "id' ` set (fst (updatedObjects prev now rnd (d # ds) k))
          = insert (id' old) (id' ` set (fst (updatedObjects prev now rnd ds k)))"
        by (simp add: updatedObjects_Cons track_id track_counter)
      also have "\<dots> = insert (id' old) (?R ds \<union> set (drawn_ids prev rnd ds k))"
        by (simp only: Cons.IH)
      also have "\<dots> = ?R (d # ds) \<union> set (drawn_ids prev rnd (d # ds) k)"
        using Some False by (simp only: r) simp
      finally show ?thesis .
    qed
  qed
qed

lemma cycle_id_absent:
  assumes "\<forall>d \<in> set ds. \<forall>old. existingObject prev d = Some old \<longrightarrow> id' old \<noteq> a"
    and "a \<notin> set (drawn_ids prev rnd ds k)"
  shows "a \<notin> id' ` set (fst (updatedObjects prev now rnd ds k))"
proof
  assume "a \<in> id' ` set (fst (updatedObjects prev now rnd ds k))"
  with assms(2) have
    "a \<in> {id' old |d old. d \<in> set ds \<and> existingObject prev d = Some old \<and> id' old \<noteq> []}"
    by (simp only: cycle_ids Un_iff) simp
  then obtain d old where "d \<in> set ds" "existingObject prev d = Some old" "id' old = a"
    by blast
  with assms(1) show False by blast
qed

lemma run_id_absent:
  assumes "a \<notin> id' ` set prev" and "a \<notin> set (run_drawn_ids rnd prev k frames)"
  shows "\<forall>objs \<in> set (run rnd prev k frames). a \<notin> id' ` set objs"
  using assms
proof (induction frames arbitrary: prev k)
  case Nil
  show ?case by simp
next
  case (Cons frame frames)
  obtain ds now where f: "frame = (ds, now)" by (cases frame)
  let ?out = "fst (updatedObjects prev now rnd ds k)"
  let ?k = "snd (updatedObjects prev now rnd ds k)"
  from Cons.prems(2) have fresh: "a \<notin> set (drawn_ids prev rnd ds k)"
    and later: "a \<notin> set (run_drawn_ids rnd ?out ?k frames)"
    by (simp_all add: f run_drawn_ids_Cons)
  have old: "\<forall>d \<in> set ds. \<forall>old. existingObject prev d = Some old \<longrightarrow> id' old \<noteq> a"
  proof (intro ballI allI impI)
    fix d old
    assume "existingObject prev d = Some old"
    then have "old \<in> set prev" by (rule existingObject_member)
    with Cons.prems(1) show "id' old \<noteq> a" by blast
  qed
  from cycle_id_absent [OF old fresh] have 1: "a \<notin> id' ` set ?out" .
  from Cons.IH [OF 1 later] 1 show ?case
    by (simp add: f run_Cons)
qed

lemma crowd_second:
  "fst (updatedObjects [fst (track [] 0 draws (person_at 120 100) 0)] 33 draws
          [person_at 100 100, person_at 140 100] (Suc 0))
     = [fst (track [fst (track [] 0 draws (person_at 120 100) 0)] 33 draws (person_at 100 100) (Suc 0)),
        fst (track [fst (track [] 0 draws (person_at 120 100) 0)] 33 draws (person_at 140 100) (Suc 0))]"
  "snd (updatedObjects [fst (track [] 0 draws (person_at 120 100) 0)] 33 draws
          [person_at 100 100, person_at 140 100] (Suc 0)) = Suc 0"
  by (simp_all add: updatedObjects_Cons track_counter crowd_found first_track)

lemma crowd_run:
  "run draws [] 0 crowded_frames =
     [ [fst (track [] 0 draws (person_at 120 100) 0)],
      [fst (track [fst (track [] 0 draws (person_at 120 100) 0)] 33 draws (person_at 100 100) (Suc 0)),
       fst (track [fst (track [] 0 draws (person_at 120 100) 0)] 33 draws (person_at 140 100) (Suc 0))],
      [fst (track
         [fst (track [fst (track [] 0 draws (person_at 120 100) 0)] 33 draws (person_at 100 100) (Suc 0)),
          fst (track [fst (track [] 0 draws (person_at 120 100) 0)] 33 draws (person_at 140 100) (Suc 0))]
         66 draws (person_at 60 100) (Suc 0))] ]"
proof -
  have 1: "updatedObjects [] 0 draws [person_at 120 100] 0
             = ([fst (track [] 0 draws (person_at 120 100) 0)], Suc 0)"
    by (simp add: updatedObjects_Cons first_track)
  show ?thesis
    by (simp add: crowded_frames_def run_Cons updatedObjects_Cons first_track track_counter
        crowd_found)
qed

lemma crowd_third_found:
  "existingObject
     [fst (track [fst (track [] 0 draws (person_at 120 100) 0)] 33 draws (person_at 100 100) (Suc 0)),
      fst (track [fst (track [] 0 draws (person_at 120 100) 0)] 33 draws (person_at 140 100) (Suc 0))]
     (person_at 60 100)
   = Some (fst (track [fst (track [] 0 draws (person_at 120 100) 0)] 33 draws (person_at 100 100) (Suc 0)))"
  by (simp add: existingObject_def box_simps)

lemma crowd_distinct:
  "fst (track [fst (track [] 0 draws (person_at 120 100) 0)] 33 draws (person_at 100 100) (Suc 0))
   \<noteq> fst (track [fst (track [] 0 draws (person_at 120 100) 0)] 33 draws (person_at 140 100) (Suc 0))"
proof
  assume "fst (track [fst (track [] 0 draws (person_at 120 100) 0)] 33 draws (person_at 100 100) (Suc 0))
   = fst (track [fst (track [] 0 draws (person_at 120 100) 0)] 33 draws (person_at 140 100) (Suc 0))"
  then have "bbox (fst (track [fst (track [] 0 draws (person_at 120 100) 0)] 33 draws (person_at 100 100) (Suc 0)))
   = bbox (fst (track [fst (track [] 0 draws (person_at 120 100) 0)] 33 draws (person_at 140 100) (Suc 0)))"
    by (rule arg_cong)
  then show False by simp
qed

lemma crowd_ids:
  "id' (fst (track [fst (track [] 0 draws (person_at 120 100) 0)] 33 draws (person_at 100 100) (Suc 0)))
     = ''person-0.7''"
  "id' (fst (track [fst (track [] 0 draws (person_at 120 100) 0)] 33 draws (person_at 140 100) (Suc 0)))
     = ''person-0.7''"
  by (simp_all add: track_id crowd_found new_id_def draws_def)

lemma run_length: "length (run rnd prev k frames) = length frames"
proof (induction frames arbitrary: prev k)
  case Nil
  show ?case by simp
next
  case (Cons frame frames)
  obtain ds now where f: "frame = (ds, now)" by (cases frame)
  from Cons.IH show ?case by (simp add: f run_Cons)
qed

lemma first_positions:
  "positions (fst (track [] now rnd (person_at a b) k)) =
     [\<lparr>x = Num (dbl a), y = Num (dbl b), timestamp = Num (of_int now)\<rparr>]"
  by (simp add: track_positions push_position_def POSITION_HISTORY_def centerX_def centerY_def
      bbox_at_def)

lemma full_history_length: "length full_history = 15"
  by (simp add: full_history_def)

section \<open>The claims\<close>

text \<open>
  C1. For every history and speed, \<open>determineAction\<close> returns the label of the ordered
  decision table over the speed and the movement sums of the last 3 positions (the sums
  of the absolute vertical and horizontal deltas, accumulated in doubles): fewer than 2
  positions give \<open>stationary\<close>, and the rows follow in the order of \<open>action_table\<close>.
  In particular speed 0.5 with a vertical movement of 2px gives \<open>sitting\<close>, speed 0.5 with
  10px gives \<open>standing\<close>, speed 10 gives \<open>walking fast\<close> and speed 20 gives \<open>running\<close>.
\<close>

theorem determineAction_decision_table:
  "determineAction ps s =
     action_table (length ps) s (verticalMovement ps) (horizontalMovement ps)
   \<and> (2 \<le> length ps \<and> verticalMovement ps = Num 2
        \<longrightarrow> determineAction ps (Num (1 / 2)) = ''sitting'')
   \<and> (2 \<le> length ps \<and> verticalMovement ps = Num 10
        \<longrightarrow> determineAction ps (Num (1 / 2)) = ''standing'')
   \<and> (2 \<le> length ps \<longrightarrow> determineAction ps (Num 10) = ''walking fast'')
   \<and> (2 \<le> length ps \<longrightarrow> determineAction ps (Num 20) = ''running'')"
  by (simp add: determineAction_eq_table action_table_def)

text \<open>
  The witness has a history of four samples with falling coordinates, where only the last
  3 positions and only the absolute deltas give \<open>standing\<close> (vertical 11 against
  horizontal 6); and the history (0,0), (0.2,0), (0.9,0.9), where the horizontal deltas
  add up to the double below 0.9, so that the vertical movement 0.9 is the larger one,
  although the exact sums are equal.
\<close>

theorem determineAction_decision_table_witness:
  "determineAction [sample (0, 0, 0), sample (1, 2, 33)] (Num (1 / 2)) = ''sitting''
   \<and> determineAction [sample (0, 0, 0), sample (1, 4, 33), sample (2, 10, 66)] (Num (1 / 2))
       = ''standing''
   \<and> determineAction [sample (0, 0, 0), sample (1, 2, 33)] (Num 10) = ''walking fast''
   \<and> determineAction [sample (0, 0, 0), sample (1, 2, 33)] (Num 20) = ''running''
   \<and> determineAction [sample (0, 0, 0)] (Num 20) = ''stationary''
   \<and> determineAction [sample (0, 0, 0), sample (9, 4, 33), sample (20, 10, 66)] (Num 2)
       = ''walking slowly''
   \<and> determineAction [sample (0, 0, 0), sample (9, 4, 33), sample (20, 10, 66)] (Num 5)
       = ''walking''
   \<and> verticalMovement
         [sample (0, 50, 0), sample (100, 50, 33), sample (101, 40, 66), sample (96, 39, 99)]
       = Num 11
   \<and> horizontalMovement
         [sample (0, 50, 0), sample (100, 50, 33), sample (101, 40, 66), sample (96, 39, 99)]
       = Num 6
   \<and> determineAction
         [sample (0, 50, 0), sample (100, 50, 33), sample (101, 40, 66), sample (96, 39, 99)]
         (Num 2) = ''standing''
   \<and> \<bar>dbl (2 / 10) - 0\<bar> + \<bar>dbl (9 / 10) - dbl (2 / 10)\<bar> = \<bar>dbl (9 / 10) - 0\<bar>
   \<and> determineAction
         [sample (0, 0, 0), sample (dbl (2 / 10), 0, 33), sample (dbl (9 / 10), dbl (9 / 10), 66)]
         (Num 2) = ''standing''"
proof -
  let ?a = "[sample (0, 0, 0), sample (1, 2, 33)]"
  let ?b = "[sample (0, 0, 0), sample (1, 4, 33), sample (2, 10, 66)]"
  let ?c = "[sample (0, 0, 0), sample (9, 4, 33), sample (20, 10, 66)]"
  let ?p = "[sample (0, 50, 0), sample (100, 50, 33), sample (101, 40, 66), sample (96, 39, 99)]"
  let ?v = "[sample (0, 0, 0), sample (dbl (2 / 10), 0, 33), sample (dbl (9 / 10), dbl (9 / 10), 66)]"
  note mv = verticalMovement_def horizontalMovement_def last_window_def consecutive_pairs_def
    total_def sample_def
  have d1: "dbl (1 / 5) = 3602879701896397 / 18014398509481984"
    by (subst dbl_eval [where e = "-3"]) (simp_all add: rne_def)
  have d2: "dbl (9 / 10) = 8106479329266893 / 9007199254740992"
    by (subst dbl_eval [where e = "-1"]) (simp_all add: rne_def)
  have d3: "dbl (3602879701896397 / 18014398509481984) = 3602879701896397 / 18014398509481984"
    by (subst dbl_eval [where e = "-3"]) (simp_all add: rne_def)
  have d4: "dbl (8106479329266893 / 9007199254740992) = 8106479329266893 / 9007199254740992"
    by (subst dbl_eval [where e = "-1"]) (simp_all add: rne_def)
  have d5: "dbl (12610078956637389 / 18014398509481984) = 3152519739159347 / 4503599627370496"
    by (subst dbl_eval [where e = "-1"]) (simp_all add: rne_def)
  have d6: "dbl (16212958658533785 / 18014398509481984) = 2026619832316723 / 2251799813685248"
    by (subst dbl_eval [where e = "-1"]) (simp_all add: rne_def)
  have va: "verticalMovement ?a = Num 2" "horizontalMovement ?a = Num 1"
    by (simp_all add: mv)
  have vb: "verticalMovement ?b = Num 10" "horizontalMovement ?b = Num 2"
    by (simp_all add: mv)
  have vc: "verticalMovement ?c = Num 10" "horizontalMovement ?c = Num 20"
    by (simp_all add: mv)
  have vp: "verticalMovement ?p = Num 11" "horizontalMovement ?p = Num 6"
    by (simp_all add: mv)
  have vv: "verticalMovement ?v = Num (8106479329266893 / 9007199254740992)"
    "horizontalMovement ?v = Num (2026619832316723 / 2251799813685248)"
    by (simp_all add: mv d1 d2 d3 d4 d5 d6)
  have ex: "\<bar>dbl (2 / 10) - 0\<bar> + \<bar>dbl (9 / 10) - dbl (2 / 10)\<bar> = \<bar>dbl (9 / 10) - 0\<bar>"
    by (simp add: d1 d2 d3 d4 d5 d6)
  note t = determineAction_decision_table [THEN conjunct1]
  have 1: "determineAction ?a (Num (1 / 2)) = ''sitting''"
    using determineAction_decision_table [of ?a "Num 0"] va by simp
  have 2: "determineAction ?b (Num (1 / 2)) = ''standing''"
    using determineAction_decision_table [of ?b "Num 0"] vb by simp
  have 3: "determineAction ?a (Num 10) = ''walking fast''" "determineAction ?a (Num 20) = ''running''"
    using determineAction_decision_table [of ?a "Num 0"] by simp_all
  have 4: "determineAction [sample (0, 0, 0)] (Num 20) = ''stationary''"
    by (simp add: t action_table_def)
  have 5: "determineAction ?c (Num 2) = ''walking slowly''" "determineAction ?c (Num 5) = ''walking''"
    by (simp_all add: t vc action_table_def num_gt_def)
  have 6: "determineAction ?p (Num 2) = ''standing''"
    by (simp add: t vp action_table_def num_gt_def)
  have 7: "determineAction ?v (Num 2) = ''standing''"
    using t [of ?v "Num 2"] vv by (simp add: action_table_def num_gt_def)
  from 1 2 3 4 5 6 7 vp ex show ?thesis by simp
qed

lemma two_samples_speed:
  "calculateSpeed [sample (a, b, t), sample (a + 100, b, t + 1000)] = Num 5"
proof -
  have d1: "dbl (3 / 200) = 1080863910568919 / 72057594037927936"
    by (subst dbl_eval [where e = "-7"]) (simp_all add: rne_def)
  have d2: "dbl (135107988821114875 / 18014398509481984) = 15 / 2"
    by (subst dbl_eval [where e = "2"]) (simp_all add: rne_def)
  have d3: "dbl (15 / 2) = 15 / 2"
    by (subst dbl_eval [where e = "2"]) (simp_all add: rne_def)
  have d4: "dbl (18 / 5) = 8106479329266893 / 2251799813685248"
    by (subst dbl_eval [where e = "1"]) (simp_all add: rne_def)
  have d5: "dbl (121597189939003395 / 4503599627370496) = 27"
    by (subst dbl_eval [where e = "4"]) (simp_all add: rne_def)
  have d6: "dbl (27021597764222975 / 9007199254740992) = 3"
    by (subst dbl_eval [where e = "1"]) (simp_all add: rne_def)
  have d7: "dbl (24319437987800679 / 2251799813685248) = 3039929748475085 / 281474976710656"
    by (subst dbl_eval [where e = "3"]) (simp_all add: rne_def)
  have d8: "dbl (27021597764222975 / 18014398509481984) = 3 / 2"
    by (subst dbl_eval [where e = "0"]) (simp_all add: rne_def)
  have d9: "dbl (3 / 2) = 3 / 2"
    by (subst dbl_eval [where e = "0"]) (simp_all add: rne_def)
  have d10: "dbl (24319437987800679 / 4503599627370496) = 3039929748475085 / 562949953421312"
    by (subst dbl_eval [where e = "2"]) (simp_all add: rne_def)
  have d11: "dbl (27 / 250) = 7782220156096217 / 72057594037927936"
    by (subst dbl_eval [where e = "-4"]) (simp_all add: rne_def)
  have d12: "dbl (16212958658533785 / 72057594037927936) = 2026619832316723 / 9007199254740992"
    by (subst dbl_eval [where e = "-3"]) (simp_all add: rne_def)
  have d13: "dbl (16212958658533784 / 7782220156096217) = 2345624805922133 / 1125899906842624"
    by (subst dbl_eval [where e = "1"]) (simp_all add: rne_def)
  have d14: "dbl (19014759003423438789415732842769 / 2535301200456458802993406410752) = 8444249301319679 / 1125899906842624"
    by (subst dbl_eval [where e = "2"]) (simp_all add: rne_def)
  have d15: "dbl (3039929748475085 / 281474976710656) = 3039929748475085 / 281474976710656"
    by (subst dbl_eval [where e = "3"]) (simp_all add: rne_def)
  have d16: "dbl (9119789245425255 / 562949953421312) = 1139973655678157 / 70368744177664"
    by (subst dbl_eval [where e = "4"]) (simp_all add: rne_def)
  have d17: "dbl (12159718993900341 / 562949953421312) = 3039929748475085 / 140737488355328"
    by (subst dbl_eval [where e = "4"]) (simp_all add: rne_def)
  have d18: "dbl (3039929748475085 / 422212465065984) = 8106479329266893 / 1125899906842624"
    by (subst dbl_eval [where e = "2"]) (simp_all add: rne_def)
  have d19: "dbl (10639754119662797 / 281474976710656) = 2659938529915699 / 70368744177664"
    by (subst dbl_eval [where e = "5"]) (simp_all add: rne_def)
  have d20: "dbl (24319437987800677 / 562949953421312) = 6079859496950169 / 140737488355328"
    by (subst dbl_eval [where e = "5"]) (simp_all add: rne_def)
  have d21: "dbl (27359367736275761 / 562949953421312) = 1709960483517235 / 35184372088832"
    by (subst dbl_eval [where e = "5"]) (simp_all add: rne_def)
  have d22: "dbl (1709960483517235 / 140737488355328) = 1709960483517235 / 140737488355328"
    by (subst dbl_eval [where e = "3"]) (simp_all add: rne_def)
  have d23: "dbl (3039929748475085 / 562949953421312) = 3039929748475085 / 562949953421312"
    by (subst dbl_eval [where e = "2"]) (simp_all add: rne_def)
  have d24: "dbl (8444249301319679 / 1125899906842624) = 8444249301319679 / 1125899906842624"
    by (subst dbl_eval [where e = "2"]) (simp_all add: rne_def)
  have q1: "sqrt (250000) = 500"
    using real_sqrt_abs [of "500"] by simp
  have q2: "sqrt (40000) = 200"
    using real_sqrt_abs [of "200"] by simp
  have q3: "sqrt (10000) = 100"
    using real_sqrt_abs [of "100"] by simp
  have q4: "sqrt (225) = 15"
    using real_sqrt_abs [of "15"] by simp
  note ds = d1 d2 d3 d4 d5 d6 d7 d8 d9 d10 d11 d12 d13 d14 d15 d16 d17 d18 d19 d20 d21 d22 d23 d24 q1 q2 q3 q4
  have d: "pixel_distance (a, b, t) (a + 100, b, t + 1000) = 100"
    by (simp add: pixel_distance_def ds)
  have e: "elapsed_seconds (a, b, t) (a + 100, b, t + 1000) = 1"
    by (simp add: elapsed_seconds_def)
  have i: "instantaneous_speed (a, b, t) (a + 100, b, t + 1000) = 3039929748475085 / 562949953421312"
    by (simp add: instantaneous_speed_def d e ds)
  have s: "survives (a, b, t) (a + 100, b, t + 1000)"
    by (simp add: survives_def d e i)
  have r: "round (3039929748475085 / 562949953421312 :: real) = 5" by (simp add: round_def)
  show ?thesis
    using calculateSpeed_all_survive [of "[(a, b, t), (a + 100, b, t + 1000)]"] s i r
    by (simp add: consecutive_pairs_def last_window_def average_def ds)
qed

text \<open>
  C2. For every history whose consecutive pairs all survive the filters, \<open>calculateSpeed\<close>
  is the rounded average of the last at most 3 instantaneous speeds, each being the
  Euclidean pixel distance times 0.015, divided by the elapsed seconds, times 3.6, in the
  doubles the program computes. For two samples 100px apart horizontally and 1000ms apart
  the result is round(5.4) = 5. The last conjunct says the same for histories of
  arbitrary numbers, \<open>NaN\<close> included, in terms of the loop's own quantities.
\<close>

theorem calculateSpeed_rounded_average:
  "((\<forall>(p, q) \<in> set (consecutive_pairs h). survives p q) \<longrightarrow>
      calculateSpeed (map sample h) =
        Num (of_int (round (average (last_window SPEED_SMOOTHING_WINDOW
          (map (\<lambda>(p, q). instantaneous_speed p q) (consecutive_pairs h)))))))
   \<and> calculateSpeed [sample (a, b, t), sample (a + 100, b, t + 1000)] = Num 5
   \<and> ((\<forall>(prev, cur) \<in> set (consecutive_pairs ps). kept prev cur) \<longrightarrow>
        calculateSpeed ps =
          smoothed (map (\<lambda>(prev, cur). speed_of prev cur) (consecutive_pairs ps)))"
proof (intro conjI impI)
  assume "\<forall>(p, q) \<in> set (consecutive_pairs h). survives p q"
  then show "calculateSpeed (map sample h) =
        Num (of_int (round (average (last_window SPEED_SMOOTHING_WINDOW
          (map (\<lambda>(p, q). instantaneous_speed p q) (consecutive_pairs h))))))"
    by (simp add: calculateSpeed_all_survive SPEED_SMOOTHING_WINDOW_def)
next
  show "calculateSpeed [sample (a, b, t), sample (a + 100, b, t + 1000)] = Num 5"
    by (rule two_samples_speed)
next
  assume "\<forall>(prev, cur) \<in> set (consecutive_pairs ps). kept prev cur"
  then have "filter (\<lambda>(prev, cur). kept prev cur) (consecutive_pairs ps) = consecutive_pairs ps"
    by (simp add: filter_id_conv)
  then show "calculateSpeed ps =
          smoothed (map (\<lambda>(prev, cur). speed_of prev cur) (consecutive_pairs ps))"
    by (simp add: calculateSpeed_smoothed)
qed

text \<open>
  The witness has four surviving pairs with speeds 27, 10.8, 5.4 and 5.4 km/h: the result
  7 is the rounded average of the last three, where all four would give 12 and the last
  two 5. Its second history, 15px in 108ms, gives 7: the doubles give
  7.499999999999999, where exact arithmetic would give 7.5 and round to 8.
\<close>

theorem calculateSpeed_rounded_average_witness:
  "survives (0, 0, 0) (500, 0, 1000)
   \<and> survives (500, 0, 1000) (700, 0, 2000)
   \<and> survives (700, 0, 2000) (800, 0, 3000)
   \<and> survives (800, 0, 3000) (900, 0, 4000)
   \<and> calculateSpeed (map sample [(0, 0, 0), (500, 0, 1000), (700, 0, 2000), (800, 0, 3000), (900, 0, 4000)]) = Num 7
   \<and> round (average [instantaneous_speed (0, 0, 0) (500, 0, 1000),
        instantaneous_speed (500, 0, 1000) (700, 0, 2000),
        instantaneous_speed (700, 0, 2000) (800, 0, 3000),
        instantaneous_speed (800, 0, 3000) (900, 0, 4000)]) = 12
   \<and> round (average [instantaneous_speed (700, 0, 2000) (800, 0, 3000),
        instantaneous_speed (800, 0, 3000) (900, 0, 4000)]) = 5
   \<and> survives (0, 0, 0) (15, 0, 108)
   \<and> calculateSpeed (map sample [(0, 0, 0), (15, 0, 108)]) = Num 7
   \<and> round (15 * (15 / 1000) / (108 / 1000) * (36 / 10) :: real) = 8"
proof -
  let ?h = "[(0, 0, 0), (500, 0, 1000), (700, 0, 2000), (800, 0, 3000), (900, 0, 4000)] :: (real \<times> real \<times> real) list"
  let ?g = "[(0, 0, 0), (15, 0, 108)] :: (real \<times> real \<times> real) list"
  have d1: "dbl (3 / 200) = 1080863910568919 / 72057594037927936"
    by (subst dbl_eval [where e = "-7"]) (simp_all add: rne_def)
  have d2: "dbl (135107988821114875 / 18014398509481984) = 15 / 2"
    by (subst dbl_eval [where e = "2"]) (simp_all add: rne_def)
  have d3: "dbl (15 / 2) = 15 / 2"
    by (subst dbl_eval [where e = "2"]) (simp_all add: rne_def)
  have d4: "dbl (18 / 5) = 8106479329266893 / 2251799813685248"
    by (subst dbl_eval [where e = "1"]) (simp_all add: rne_def)
  have d5: "dbl (121597189939003395 / 4503599627370496) = 27"
    by (subst dbl_eval [where e = "4"]) (simp_all add: rne_def)
  have d6: "dbl (27021597764222975 / 9007199254740992) = 3"
    by (subst dbl_eval [where e = "1"]) (simp_all add: rne_def)
  have d7: "dbl (24319437987800679 / 2251799813685248) = 3039929748475085 / 281474976710656"
    by (subst dbl_eval [where e = "3"]) (simp_all add: rne_def)
  have d8: "dbl (27021597764222975 / 18014398509481984) = 3 / 2"
    by (subst dbl_eval [where e = "0"]) (simp_all add: rne_def)
  have d9: "dbl (3 / 2) = 3 / 2"
    by (subst dbl_eval [where e = "0"]) (simp_all add: rne_def)
  have d10: "dbl (24319437987800679 / 4503599627370496) = 3039929748475085 / 562949953421312"
    by (subst dbl_eval [where e = "2"]) (simp_all add: rne_def)
  have d11: "dbl (27 / 250) = 7782220156096217 / 72057594037927936"
    by (subst dbl_eval [where e = "-4"]) (simp_all add: rne_def)
  have d12: "dbl (16212958658533785 / 72057594037927936) = 2026619832316723 / 9007199254740992"
    by (subst dbl_eval [where e = "-3"]) (simp_all add: rne_def)
  have d13: "dbl (16212958658533784 / 7782220156096217) = 2345624805922133 / 1125899906842624"
    by (subst dbl_eval [where e = "1"]) (simp_all add: rne_def)
  have d14: "dbl (19014759003423438789415732842769 / 2535301200456458802993406410752) = 8444249301319679 / 1125899906842624"
    by (subst dbl_eval [where e = "2"]) (simp_all add: rne_def)
  have d15: "dbl (3039929748475085 / 281474976710656) = 3039929748475085 / 281474976710656"
    by (subst dbl_eval [where e = "3"]) (simp_all add: rne_def)
  have d16: "dbl (9119789245425255 / 562949953421312) = 1139973655678157 / 70368744177664"
    by (subst dbl_eval [where e = "4"]) (simp_all add: rne_def)
  have d17: "dbl (12159718993900341 / 562949953421312) = 3039929748475085 / 140737488355328"
    by (subst dbl_eval [where e = "4"]) (simp_all add: rne_def)
  have d18: "dbl (3039929748475085 / 422212465065984) = 8106479329266893 / 1125899906842624"
    by (subst dbl_eval [where e = "2"]) (simp_all add: rne_def)
  have d19: "dbl (10639754119662797 / 281474976710656) = 2659938529915699 / 70368744177664"
    by (subst dbl_eval [where e = "5"]) (simp_all add: rne_def)
  have d20: "dbl (24319437987800677 / 562949953421312) = 6079859496950169 / 140737488355328"
    by (subst dbl_eval [where e = "5"]) (simp_all add: rne_def)
  have d21: "dbl (27359367736275761 / 562949953421312) = 1709960483517235 / 35184372088832"
    by (subst dbl_eval [where e = "5"]) (simp_all add: rne_def)
  have d22: "dbl (1709960483517235 / 140737488355328) = 1709960483517235 / 140737488355328"
    by (subst dbl_eval [where e = "3"]) (simp_all add: rne_def)
  have d23: "dbl (3039929748475085 / 562949953421312) = 3039929748475085 / 562949953421312"
    by (subst dbl_eval [where e = "2"]) (simp_all add: rne_def)
  have d24: "dbl (8444249301319679 / 1125899906842624) = 8444249301319679 / 1125899906842624"
    by (subst dbl_eval [where e = "2"]) (simp_all add: rne_def)
  have q1: "sqrt (250000) = 500"
    using real_sqrt_abs [of "500"] by simp
  have q2: "sqrt (40000) = 200"
    using real_sqrt_abs [of "200"] by simp
  have q3: "sqrt (10000) = 100"
    using real_sqrt_abs [of "100"] by simp
  have q4: "sqrt (225) = 15"
    using real_sqrt_abs [of "15"] by simp
  note ds = d1 d2 d3 d4 d5 d6 d7 d8 d9 d10 d11 d12 d13 d14 d15 d16 d17 d18 d19 d20 d21 d22 d23 d24 q1 q2 q3 q4
  have hp1: "pixel_distance (0, 0, 0) (500, 0, 1000) = 500"
    "elapsed_seconds (0, 0, 0) (500, 0, 1000) = 1"
    by (simp_all add: pixel_distance_def elapsed_seconds_def ds)
  have hi1: "instantaneous_speed (0, 0, 0) (500, 0, 1000) = 27"
    by (simp add: instantaneous_speed_def hp1 ds)
  have hs1: "survives (0, 0, 0) (500, 0, 1000)"
    by (simp add: survives_def hp1 hi1)
  have hp2: "pixel_distance (500, 0, 1000) (700, 0, 2000) = 200"
    "elapsed_seconds (500, 0, 1000) (700, 0, 2000) = 1"
    by (simp_all add: pixel_distance_def elapsed_seconds_def ds)
  have hi2: "instantaneous_speed (500, 0, 1000) (700, 0, 2000) = 3039929748475085 / 281474976710656"
    by (simp add: instantaneous_speed_def hp2 ds)
  have hs2: "survives (500, 0, 1000) (700, 0, 2000)"
    by (simp add: survives_def hp2 hi2)
  have hp3: "pixel_distance (700, 0, 2000) (800, 0, 3000) = 100"
    "elapsed_seconds (700, 0, 2000) (800, 0, 3000) = 1"
    by (simp_all add: pixel_distance_def elapsed_seconds_def ds)
  have hi3: "instantaneous_speed (700, 0, 2000) (800, 0, 3000) = 3039929748475085 / 562949953421312"
    by (simp add: instantaneous_speed_def hp3 ds)
  have hs3: "survives (700, 0, 2000) (800, 0, 3000)"
    by (simp add: survives_def hp3 hi3)
  have hp4: "pixel_distance (800, 0, 3000) (900, 0, 4000) = 100"
    "elapsed_seconds (800, 0, 3000) (900, 0, 4000) = 1"
    by (simp_all add: pixel_distance_def elapsed_seconds_def ds)
  have hi4: "instantaneous_speed (800, 0, 3000) (900, 0, 4000) = 3039929748475085 / 562949953421312"
    by (simp add: instantaneous_speed_def hp4 ds)
  have hs4: "survives (800, 0, 3000) (900, 0, 4000)"
    by (simp add: survives_def hp4 hi4)
  have gp1: "pixel_distance (0, 0, 0) (15, 0, 108) = 15"
    "elapsed_seconds (0, 0, 0) (15, 0, 108) = 7782220156096217 / 72057594037927936"
    by (simp_all add: pixel_distance_def elapsed_seconds_def ds)
  have gi1: "instantaneous_speed (0, 0, 0) (15, 0, 108) = 8444249301319679 / 1125899906842624"
    by (simp add: instantaneous_speed_def gp1 ds)
  have gs1: "survives (0, 0, 0) (15, 0, 108)"
    by (simp add: survives_def gp1 gi1)
  note hi = hi1 hi2 hi3 hi4
  have r: "round (8106479329266893 / 1125899906842624 :: real) = 7" "round (1709960483517235 / 140737488355328 :: real) = 12"
    "round (3039929748475085 / 562949953421312 :: real) = 5" "round (8444249301319679 / 1125899906842624 :: real) = 7"
    "round (15 * (15 / 1000) / (108 / 1000) * (36 / 10) :: real) = 8"
    by (simp_all add: round_def)
  from hs1 hs2 hs3 hs4 calculateSpeed_rounded_average [of ?h 0 0 0]
  have 1: "calculateSpeed (map sample ?h) = Num 7"
    by (simp add: consecutive_pairs_def SPEED_SMOOTHING_WINDOW_def last_window_def average_def
        hi ds r)
  from gs1 calculateSpeed_rounded_average [of ?g 0 0 0]
  have 2: "calculateSpeed (map sample ?g) = Num 7"
    by (simp add: consecutive_pairs_def SPEED_SMOOTHING_WINDOW_def last_window_def average_def
        gi1 ds r)
  have 3: "round (average [instantaneous_speed (0, 0, 0) (500, 0, 1000), instantaneous_speed (500, 0, 1000) (700, 0, 2000), instantaneous_speed (700, 0, 2000) (800, 0, 3000), instantaneous_speed (800, 0, 3000) (900, 0, 4000)]) = 12"
    "round (average [instantaneous_speed (700, 0, 2000) (800, 0, 3000), instantaneous_speed (800, 0, 3000) (900, 0, 4000)]) = 5"
    by (simp_all add: average_def hi ds r)
  from 1 2 3 hs1 hs2 hs3 hs4 gs1 r(5) show ?thesis by simp
qed

text \<open>
  C3. \<open>calculateSpeed\<close> is total and its result is always a finite integer, never \<open>NaN\<close>
  (which is also what a division by zero would give here): a history with fewer than 2
  samples gives 0; the result is computed from the speeds of the kept pairs only, and a
  pair whose pixel distance is at most 2, whose elapsed time is at most 0 or whose speed is
  at least 30 is not kept, these quantities being the doubles the loop computes; wherever
  the loop divides by the elapsed time it is a non-zero number, and the average divides
  by a non-zero length; if no pair is kept the result is 0.
\<close>

theorem calculateSpeed_total_filtered:
  "(\<exists>k. calculateSpeed ps = Num (of_int k))
   \<and> (length ps < 2 \<longrightarrow> calculateSpeed ps = Num 0)
   \<and> calculateSpeed ps =
       smoothed (map (\<lambda>(prev, cur). speed_of prev cur)
                   (filter (\<lambda>(prev, cur). kept prev cur) (consecutive_pairs ps)))
   \<and> (\<forall>(prev, cur) \<in> set (consecutive_pairs ps).
         num_le (distance prev cur) MIN_MOVEMENT_THRESHOLD \<or> num_le (timeDiff prev cur) (Num 0)
           \<or> num_le MAX_SPEED_THRESHOLD (speed_of prev cur)
         \<longrightarrow> \<not> kept prev cur)
   \<and> (\<forall>(prev, cur) \<in> set (consecutive_pairs ps).
         num_gt (distance prev cur) MIN_MOVEMENT_THRESHOLD \<and> num_gt (timeDiff prev cur) (Num 0)
         \<longrightarrow> (\<exists>dt v. timeDiff prev cur = Num dt \<and> dt \<noteq> 0 \<and> speed_of prev cur = Num v))
   \<and> (speeds_loop ps [] \<noteq> [] \<longrightarrow>
         length (slice_last SPEED_SMOOTHING_WINDOW (speeds_loop ps [])) \<noteq> 0)
   \<and> ((\<forall>(prev, cur) \<in> set (consecutive_pairs ps). \<not> kept prev cur) \<longrightarrow> calculateSpeed ps = Num 0)"
proof (intro conjI)
  show "\<exists>k. calculateSpeed ps = Num (of_int k)"
    using calculateSpeed_range [of ps] by blast
  show "length ps < 2 \<longrightarrow> calculateSpeed ps = Num 0"
    by (simp add: calculateSpeed_def)
  show "calculateSpeed ps =
       smoothed (map (\<lambda>(prev, cur). speed_of prev cur)
                   (filter (\<lambda>(prev, cur). kept prev cur) (consecutive_pairs ps)))"
    by (rule calculateSpeed_smoothed)
  show "\<forall>(prev, cur) \<in> set (consecutive_pairs ps).
         num_le (distance prev cur) MIN_MOVEMENT_THRESHOLD \<or> num_le (timeDiff prev cur) (Num 0)
           \<or> num_le MAX_SPEED_THRESHOLD (speed_of prev cur)
         \<longrightarrow> \<not> kept prev cur"
    using discarded_not_kept
    by (auto simp: MIN_MOVEMENT_THRESHOLD_def MAX_SPEED_THRESHOLD_def)
  show "\<forall>(prev, cur) \<in> set (consecutive_pairs ps).
         num_gt (distance prev cur) MIN_MOVEMENT_THRESHOLD \<and> num_gt (timeDiff prev cur) (Num 0)
         \<longrightarrow> (\<exists>dt v. timeDiff prev cur = Num dt \<and> dt \<noteq> 0 \<and> speed_of prev cur = Num v)"
  proof (clarify)
    fix prev cur
    assume "num_gt (distance prev cur) MIN_MOVEMENT_THRESHOLD" "num_gt (timeDiff prev cur) (Num 0)"
    from guard_finite [OF this] obtain d dt where
      "timeDiff prev cur = Num dt" "0 < dt"
      "speed_of prev cur = Num (dbl (dbl (dbl (d * dbl (15 / 1000)) / dt) * dbl (36 / 10)))"
      by blast
    then show "\<exists>dt v. timeDiff prev cur = Num dt \<and> dt \<noteq> 0 \<and> speed_of prev cur = Num v"
      by (intro exI [of _ dt] exI [of _ "dbl (dbl (dbl (d * dbl (15 / 1000)) / dt) * dbl (36 / 10))"]) simp
  qed
  show "speeds_loop ps [] \<noteq> [] \<longrightarrow>
         length (slice_last SPEED_SMOOTHING_WINDOW (speeds_loop ps [])) \<noteq> 0"
    by (cases "speeds_loop ps []") (simp_all add: slice_last_def SPEED_SMOOTHING_WINDOW_def)
  show "(\<forall>(prev, cur) \<in> set (consecutive_pairs ps). \<not> kept prev cur) \<longrightarrow> calculateSpeed ps = Num 0"
    using none_kept_zero by blast
qed

text \<open>
  The witness has one pair of each kind. Its last history, 15px in 27ms, is at the
  threshold: exact arithmetic gives 30 km/h, the doubles give 29.999999999999996, which is
  below 30, so the pair is kept and the result is 30.
\<close>

theorem calculateSpeed_total_filtered_witness:
  "num_le (distance (sample (0, 0, 0)) (sample (1, 0, 1000))) MIN_MOVEMENT_THRESHOLD
   \<and> num_le (timeDiff (sample (1, 0, 1000)) (sample (101, 0, 1000))) (Num 0)
   \<and> num_le MAX_SPEED_THRESHOLD (speed_of (sample (101, 0, 1000)) (sample (1101, 0, 1100)))
   \<and> kept (sample (1101, 0, 1100)) (sample (1201, 0, 2100))
   \<and> calculateSpeed (map sample
        [(0, 0, 0), (1, 0, 1000), (101, 0, 1000), (1101, 0, 1100), (1201, 0, 2100)]) = Num 5
   \<and> calculateSpeed [sample (0, 0, 0)] = Num 0
   \<and> calculateSpeed (map sample [(0, 0, 0), (1, 0, 1000), (101, 0, 1000), (1101, 0, 1100)]) = Num 0
   \<and> calculateSpeed [\<lparr>x = NaN, y = Num 0, timestamp = Num 0\<rparr>, sample (100, 0, 1000)] = Num 0
   \<and> 15 * (15 / 1000) / (27 / 1000) * (36 / 10) = (30 :: real)
   \<and> num_lt (speed_of (sample (0, 0, 0)) (sample (15, 0, 27))) MAX_SPEED_THRESHOLD
   \<and> kept (sample (0, 0, 0)) (sample (15, 0, 27))
   \<and> calculateSpeed (map sample [(0, 0, 0), (15, 0, 27)]) = Num 30"
proof -
  let ?h = "[(0, 0, 0), (1, 0, 1000), (101, 0, 1000), (1101, 0, 1100), (1201, 0, 2100)] :: (real \<times> real \<times> real) list"
  let ?g = "[(0, 0, 0), (1, 0, 1000), (101, 0, 1000), (1101, 0, 1100)] :: (real \<times> real \<times> real) list"
  let ?e = "[(0, 0, 0), (15, 0, 27)] :: (real \<times> real \<times> real) list"
  have d1: "dbl (3 / 200) = 1080863910568919 / 72057594037927936"
    by (subst dbl_eval [where e = "-7"]) (simp_all add: rne_def)
  have d2: "dbl (1080863910568919 / 72057594037927936) = 1080863910568919 / 72057594037927936"
    by (subst dbl_eval [where e = "-7"]) (simp_all add: rne_def)
  have d3: "dbl (18 / 5) = 8106479329266893 / 2251799813685248"
    by (subst dbl_eval [where e = "1"]) (simp_all add: rne_def)
  have d4: "dbl (8762000948777521515058821498667 / 162259276829213363391578010288128) = 7782220156096217 / 144115188075855872"
    by (subst dbl_eval [where e = "-5"]) (simp_all add: rne_def)
  have d5: "dbl (1 / 10) = 3602879701896397 / 36028797018963968"
    by (subst dbl_eval [where e = "-4"]) (simp_all add: rne_def)
  have d6: "dbl (135107988821114875 / 9007199254740992) = 15"
    by (subst dbl_eval [where e = "3"]) (simp_all add: rne_def)
  have d7: "dbl (540431955284459520 / 3602879701896397) = 150"
    by (subst dbl_eval [where e = "7"]) (simp_all add: rne_def)
  have d8: "dbl (607985949695016975 / 1125899906842624) = 540"
    by (subst dbl_eval [where e = "9"]) (simp_all add: rne_def)
  have d9: "dbl (27021597764222975 / 18014398509481984) = 3 / 2"
    by (subst dbl_eval [where e = "0"]) (simp_all add: rne_def)
  have d10: "dbl (3 / 2) = 3 / 2"
    by (subst dbl_eval [where e = "0"]) (simp_all add: rne_def)
  have d11: "dbl (24319437987800679 / 4503599627370496) = 3039929748475085 / 562949953421312"
    by (subst dbl_eval [where e = "2"]) (simp_all add: rne_def)
  have d12: "dbl (27 / 1000) = 7782220156096217 / 288230376151711744"
    by (subst dbl_eval [where e = "-6"]) (simp_all add: rne_def)
  have d13: "dbl (16212958658533785 / 72057594037927936) = 2026619832316723 / 9007199254740992"
    by (subst dbl_eval [where e = "-3"]) (simp_all add: rne_def)
  have d14: "dbl (64851834634135136 / 7782220156096217) = 2345624805922133 / 281474976710656"
    by (subst dbl_eval [where e = "3"]) (simp_all add: rne_def)
  have d15: "dbl (19014759003423438789415732842769 / 633825300114114700748351602688) = 8444249301319679 / 281474976710656"
    by (subst dbl_eval [where e = "4"]) (simp_all add: rne_def)
  have d16: "dbl (3039929748475085 / 562949953421312) = 3039929748475085 / 562949953421312"
    by (subst dbl_eval [where e = "2"]) (simp_all add: rne_def)
  have d17: "dbl (8444249301319679 / 281474976710656) = 8444249301319679 / 281474976710656"
    by (subst dbl_eval [where e = "4"]) (simp_all add: rne_def)
  have q1: "sqrt (10000) = 100"
    using real_sqrt_abs [of "100"] by simp
  have q2: "sqrt (1000000) = 1000"
    using real_sqrt_abs [of "1000"] by simp
  have q3: "sqrt (225) = 15"
    using real_sqrt_abs [of "15"] by simp
  note ds = d1 d2 d3 d4 d5 d6 d7 d8 d9 d10 d11 d12 d13 d14 d15 d16 d17 q1 q2 q3
  have ap: "pixel_distance (0, 0, 0) (1, 0, 1000) = 1"
    "elapsed_seconds (0, 0, 0) (1, 0, 1000) = 1"
    by (simp_all add: pixel_distance_def elapsed_seconds_def ds)
  have ai: "instantaneous_speed (0, 0, 0) (1, 0, 1000) = 7782220156096217 / 144115188075855872"
    by (simp add: instantaneous_speed_def ap ds)
  have av: "speed_of (sample (0, 0, 0)) (sample (1, 0, 1000)) = Num (7782220156096217 / 144115188075855872)"
    by (simp add: speed_of_sample ap ai)
  have bp: "pixel_distance (1, 0, 1000) (101, 0, 1000) = 100"
    "elapsed_seconds (1, 0, 1000) (101, 0, 1000) = 0"
    by (simp_all add: pixel_distance_def elapsed_seconds_def ds)
  have cp: "pixel_distance (101, 0, 1000) (1101, 0, 1100) = 1000"
    "elapsed_seconds (101, 0, 1000) (1101, 0, 1100) = 3602879701896397 / 36028797018963968"
    by (simp_all add: pixel_distance_def elapsed_seconds_def ds)
  have ci: "instantaneous_speed (101, 0, 1000) (1101, 0, 1100) = 540"
    by (simp add: instantaneous_speed_def cp ds)
  have cv: "speed_of (sample (101, 0, 1000)) (sample (1101, 0, 1100)) = Num (540)"
    by (simp add: speed_of_sample cp ci)
  have dp: "pixel_distance (1101, 0, 1100) (1201, 0, 2100) = 100"
    "elapsed_seconds (1101, 0, 1100) (1201, 0, 2100) = 1"
    by (simp_all add: pixel_distance_def elapsed_seconds_def ds)
  have di: "instantaneous_speed (1101, 0, 1100) (1201, 0, 2100) = 3039929748475085 / 562949953421312"
    by (simp add: instantaneous_speed_def dp ds)
  have dv: "speed_of (sample (1101, 0, 1100)) (sample (1201, 0, 2100)) = Num (3039929748475085 / 562949953421312)"
    by (simp add: speed_of_sample dp di)
  have ep: "pixel_distance (0, 0, 0) (15, 0, 27) = 15"
    "elapsed_seconds (0, 0, 0) (15, 0, 27) = 7782220156096217 / 288230376151711744"
    by (simp_all add: pixel_distance_def elapsed_seconds_def ds)
  have ei: "instantaneous_speed (0, 0, 0) (15, 0, 27) = 8444249301319679 / 281474976710656"
    by (simp add: instantaneous_speed_def ep ds)
  have ev: "speed_of (sample (0, 0, 0)) (sample (15, 0, 27)) = Num (8444249301319679 / 281474976710656)"
    by (simp add: speed_of_sample ep ei)
  have k: "\<not> kept (sample (0, 0, 0)) (sample (1, 0, 1000))"
    "\<not> kept (sample (1, 0, 1000)) (sample (101, 0, 1000))"
    "\<not> kept (sample (101, 0, 1000)) (sample (1101, 0, 1100))"
    "kept (sample (1101, 0, 1100)) (sample (1201, 0, 2100))"
    "kept (sample (0, 0, 0)) (sample (15, 0, 27))"
    by (simp_all add: kept_sample survives_def ap bp cp dp ep ci di ei)
  have n: "\<not> kept \<lparr>x = NaN, y = Num 0, timestamp = Num 0\<rparr> (sample (100, 0, 1000))"
    by (simp add: kept_def distance_def sample_def num_gt_def)
  have r: "\<lfloor>3039929748475085 / 562949953421312 + 1 / 2 :: real\<rfloor> = 5" "\<lfloor>8444249301319679 / 281474976710656 + 1 / 2 :: real\<rfloor> = 30"
    by simp_all
  note sm = smoothed_def SPEED_SMOOTHING_WINDOW_def slice_last_def
  note eq = calculateSpeed_total_filtered [THEN conjunct2, THEN conjunct2, THEN conjunct1]
  note short = calculateSpeed_total_filtered [THEN conjunct2, THEN conjunct1]
  have 1: "calculateSpeed (map sample ?h) = Num 5"
    using eq [of "map sample ?h"]
    by (simp add: consecutive_pairs_def k dv sm ds r)
  have 2: "calculateSpeed [sample (0, 0, 0)] = Num 0"
    using short [of "[sample (0, 0, 0)]"] by simp
  have 3: "calculateSpeed (map sample ?g) = Num 0"
    using eq [of "map sample ?g"]
    by (simp add: consecutive_pairs_def k sm)
  have 4: "calculateSpeed [\<lparr>x = NaN, y = Num 0, timestamp = Num 0\<rparr>, sample (100, 0, 1000)] = Num 0"
    using eq [of "[\<lparr>x = NaN, y = Num 0, timestamp = Num 0\<rparr>, sample (100, 0, 1000)]"]
    by (simp add: consecutive_pairs_def n sm)
  have 5: "calculateSpeed (map sample ?e) = Num 30"
    using eq [of "map sample ?e"]
    by (simp add: consecutive_pairs_def k ev sm ds r)
  have 6: "15 * (15 / 1000) / (27 / 1000) * (36 / 10) = (30 :: real)" by simp
  from 1 2 3 4 5 6 k(4,5) show ?thesis
    by (simp add: distance_sample timeDiff_sample ap bp cv ev MIN_MOVEMENT_THRESHOLD_def
        MAX_SPEED_THRESHOLD_def)
qed

text \<open>
  C10. For every history \<open>calculateSpeed\<close> returns an integer between 0 and 30 inclusive,
  and every speed that enters the average is strictly positive and strictly below 30.
\<close>

theorem calculateSpeed_integer_range:
  "(\<exists>k. calculateSpeed ps = Num (of_int k) \<and> 0 \<le> k \<and> k \<le> 30)
   \<and> (\<forall>v \<in> set (speeds_loop ps []). \<exists>r. v = Num r \<and> 0 < r \<and> r < 30)"
  using calculateSpeed_range [of ps] speeds_loop_range [of ps] by blast

text \<open>
  The witness has a history whose only speed, the double nearest to 29.7, is kept and
  rounds to the upper bound 30, and one whose only speed, the double nearest to 0.27,
  rounds to the lower bound 0.
\<close>

theorem calculateSpeed_integer_range_witness:
  "speeds_loop [sample (0, 0, 0), sample (550, 0, 1000)] [] = [Num (dbl (297 / 10))]
   \<and> calculateSpeed [sample (0, 0, 0), sample (550, 0, 1000)] = Num 30
   \<and> speeds_loop [sample (0, 0, 0), sample (3, 4, 1000)] [] = [Num (dbl (27 / 100))]
   \<and> calculateSpeed [sample (0, 0, 0), sample (3, 4, 1000)] = Num 0"
proof -
  have d1: "dbl (3 / 200) = 1080863910568919 / 72057594037927936"
    by (subst dbl_eval [where e = "-7"]) (simp_all add: rne_def)
  have d2: "dbl (297237575406452725 / 36028797018963968) = 33 / 4"
    by (subst dbl_eval [where e = "3"]) (simp_all add: rne_def)
  have d3: "dbl (33 / 4) = 33 / 4"
    by (subst dbl_eval [where e = "3"]) (simp_all add: rne_def)
  have d4: "dbl (18 / 5) = 8106479329266893 / 2251799813685248"
    by (subst dbl_eval [where e = "1"]) (simp_all add: rne_def)
  have d5: "dbl (267513817865807469 / 9007199254740992) = 8359806808306483 / 281474976710656"
    by (subst dbl_eval [where e = "4"]) (simp_all add: rne_def)
  have d6: "dbl (5404319552844595 / 72057594037927936) = 5404319552844595 / 72057594037927936"
    by (subst dbl_eval [where e = "-4"]) (simp_all add: rne_def)
  have d7: "dbl (43810004743887607575294107493335 / 162259276829213363391578010288128) = 607985949695017 / 2251799813685248"
    by (subst dbl_eval [where e = "-2"]) (simp_all add: rne_def)
  have d8: "dbl (8359806808306483 / 281474976710656) = 8359806808306483 / 281474976710656"
    by (subst dbl_eval [where e = "4"]) (simp_all add: rne_def)
  have d9: "dbl (607985949695017 / 2251799813685248) = 607985949695017 / 2251799813685248"
    by (subst dbl_eval [where e = "-2"]) (simp_all add: rne_def)
  have d10: "dbl (297 / 10) = 8359806808306483 / 281474976710656"
    by (subst dbl_eval [where e = "4"]) (simp_all add: rne_def)
  have d11: "dbl (27 / 100) = 607985949695017 / 2251799813685248"
    by (subst dbl_eval [where e = "-2"]) (simp_all add: rne_def)
  have q1: "sqrt (302500) = 550"
    using real_sqrt_abs [of "550"] by simp
  have q2: "sqrt (25) = 5"
    using real_sqrt_abs [of "5"] by simp
  note ds = d1 d2 d3 d4 d5 d6 d7 d8 d9 d10 d11 q1 q2
  have ap: "pixel_distance (0, 0, 0) (550, 0, 1000) = 550"
    "elapsed_seconds (0, 0, 0) (550, 0, 1000) = 1"
    by (simp_all add: pixel_distance_def elapsed_seconds_def ds)
  have ai: "instantaneous_speed (0, 0, 0) (550, 0, 1000) = 8359806808306483 / 281474976710656"
    by (simp add: instantaneous_speed_def ap ds)
  have av: "speed_of (sample (0, 0, 0)) (sample (550, 0, 1000)) = Num (8359806808306483 / 281474976710656)"
    by (simp add: speed_of_sample ap ai)
  have bp: "pixel_distance (0, 0, 0) (3, 4, 1000) = 5"
    "elapsed_seconds (0, 0, 0) (3, 4, 1000) = 1"
    by (simp_all add: pixel_distance_def elapsed_seconds_def ds)
  have bi: "instantaneous_speed (0, 0, 0) (3, 4, 1000) = 607985949695017 / 2251799813685248"
    by (simp add: instantaneous_speed_def bp ds)
  have bv: "speed_of (sample (0, 0, 0)) (sample (3, 4, 1000)) = Num (607985949695017 / 2251799813685248)"
    by (simp add: speed_of_sample bp bi)
  have k: "kept (sample (0, 0, 0)) (sample (550, 0, 1000))" "kept (sample (0, 0, 0)) (sample (3, 4, 1000))"
    by (simp_all add: kept_sample survives_def ap bp ai bi)
  have s: "speeds_loop [sample (0, 0, 0), sample (550, 0, 1000)] [] = [Num (dbl (297 / 10))]"
    "speeds_loop [sample (0, 0, 0), sample (3, 4, 1000)] [] = [Num (dbl (27 / 100))]"
    by (simp_all add: speeds_loop_filter consecutive_pairs_def k av bv ds)
  have r: "\<lfloor>8359806808306483 / 281474976710656 + 1 / 2 :: real\<rfloor> = 30" "\<lfloor>607985949695017 / 2251799813685248 + 1 / 2 :: real\<rfloor> = 0"
    by simp_all
  have c: "calculateSpeed [sample (0, 0, 0), sample (550, 0, 1000)] = Num 30"
    "calculateSpeed [sample (0, 0, 0), sample (3, 4, 1000)] = Num 0"
    by (simp_all add: calculateSpeed_smoothed consecutive_pairs_def k av bv smoothed_def
        SPEED_SMOOTHING_WINDOW_def slice_last_def ds r)
  from calculateSpeed_integer_range [of "[sample (0, 0, 0), sample (550, 0, 1000)]"] s c
  show ?thesis by simp
qed

text \<open>
  C4. In the output of any number of detection cycles started from the empty track set,
  every track's position history has at most 15 (\<open>POSITION_HISTORY\<close>) entries, and one
  cycle keeps that bound. Appending a sample to a full history drops exactly the oldest
  entry and keeps the others in order, behind them the new sample; below capacity nothing
  is dropped. So a detection matched to a track with a full history carries that track's
  history without its first entry, followed by the new sample.
\<close>

theorem history_bounded_fifo:
  "(\<forall>objs \<in> set (run rnd [] k frames). \<forall>obj \<in> set objs.
       length (positions obj) \<le> POSITION_HISTORY)
   \<and> ((\<forall>obj \<in> set prev. length (positions obj) \<le> POSITION_HISTORY) \<longrightarrow>
       (\<forall>obj \<in> set (fst (detection_cycle prev now rnd preds k)).
          length (positions obj) \<le> POSITION_HISTORY))
   \<and> (length h = POSITION_HISTORY \<longrightarrow> push_position h p = tl h @ [p])
   \<and> (length h < POSITION_HISTORY \<longrightarrow> push_position h p = h @ [p])
   \<and> (existingObject prev pred = Some old \<and> length (positions old) = POSITION_HISTORY \<longrightarrow>
        positions (fst (track prev now rnd pred k)) =
          tl (positions old) @ [\<lparr>x = centerX (bbox pred), y = centerY (bbox pred),
                                 timestamp = Num (of_int now)\<rparr>])"
proof (intro conjI)
  show "\<forall>objs \<in> set (run rnd [] k frames). \<forall>obj \<in> set objs.
       length (positions obj) \<le> POSITION_HISTORY"
    by (rule run_bounded) simp
  show "(\<forall>obj \<in> set prev. length (positions obj) \<le> POSITION_HISTORY) \<longrightarrow>
       (\<forall>obj \<in> set (fst (detection_cycle prev now rnd preds k)).
          length (positions obj) \<le> POSITION_HISTORY)"
    using cycle_bounded by blast
  show "length h = POSITION_HISTORY \<longrightarrow> push_position h p = tl h @ [p]"
    by (simp add: push_position_full)
  show "length h < POSITION_HISTORY \<longrightarrow> push_position h p = h @ [p]"
    by (simp add: push_position_room)
  show "existingObject prev pred = Some old \<and> length (positions old) = POSITION_HISTORY \<longrightarrow>
        positions (fst (track prev now rnd pred k)) =
          tl (positions old) @ [\<lparr>x = centerX (bbox pred), y = centerY (bbox pred),
                                 timestamp = Num (of_int now)\<rparr>]"
    by (simp add: track_positions push_position_full)
qed

theorem history_bounded_fifo_witness:
  "length full_history = POSITION_HISTORY
   \<and> push_position full_history (sample (15, 0, 495)) = tl full_history @ [sample (15, 0, 495)]
   \<and> length (push_position full_history (sample (15, 0, 495))) = 15
   \<and> push_position [sample (0, 0, 0)] (sample (1, 0, 33)) = [sample (0, 0, 0), sample (1, 0, 33)]
   \<and> existingObject [(fst (track [] 0 draws (person_at 14 40) 0))\<lparr>positions := full_history\<rparr>]
         (person_at 15 40)
       = Some ((fst (track [] 0 draws (person_at 14 40) 0))\<lparr>positions := full_history\<rparr>)
   \<and> positions (fst (track
         [(fst (track [] 0 draws (person_at 14 40) 0))\<lparr>positions := full_history\<rparr>]
         495 draws (person_at 15 40) (Suc 0)))
       = tl full_history @ [\<lparr>x = Num 15, y = Num 40, timestamp = Num 495\<rparr>]
   \<and> length (positions (run draws [] 0 crowded_frames ! 2 ! 0)) \<le> POSITION_HISTORY
   \<and> length (positions (run draws [] 0 crowded_frames ! 2 ! 0)) = 3"
proof -
  let ?old = "(fst (track [] 0 draws (person_at 14 40) 0))\<lparr>positions := full_history\<rparr>"
  have l: "length full_history = POSITION_HISTORY"
    by (simp add: full_history_length POSITION_HISTORY_def)
  have e: "existingObject [?old] (person_at 15 40) = Some ?old"
    by (simp add: existingObject_def box_simps)
  have c: "centerX (bbox (person_at 15 40)) = Num 15" "centerY (bbox (person_at 15 40)) = Num 40"
    by (simp_all add: centerX_def centerY_def bbox_at_def)
  have m: "run draws [] 0 crowded_frames ! 2 ! 0 \<in> set (run draws [] 0 crowded_frames ! 2)"
    "run draws [] 0 crowded_frames ! 2 \<in> set (run draws [] 0 crowded_frames)"
    by (simp_all add: crowd_run)
  have p3: "length (positions (run draws [] 0 crowded_frames ! 2 ! 0)) = 3"
    by (simp add: crowd_run track_positions [of "[a, b]" for a b] crowd_third_found
        track_positions [of "[a]" for a] crowd_found first_positions push_position_def
        POSITION_HISTORY_def)
  from history_bounded_fifo [where h = full_history and p = "sample (15, 0, 495)",
      THEN conjunct2, THEN conjunct2, THEN conjunct1] l
  have 1: "push_position full_history (sample (15, 0, 495)) = tl full_history @ [sample (15, 0, 495)]"
    by simp
  from history_bounded_fifo [where h = "[sample (0, 0, 0)]" and p = "sample (1, 0, 33)",
      THEN conjunct2, THEN conjunct2, THEN conjunct2, THEN conjunct1]
  have 2: "push_position [sample (0, 0, 0)] (sample (1, 0, 33)) = [sample (0, 0, 0), sample (1, 0, 33)]"
    by (simp add: POSITION_HISTORY_def)
  from history_bounded_fifo [where prev = "[?old]" and pred = "person_at 15 40" and old = ?old
      and now = 495 and rnd = draws and k = "Suc 0",
      THEN conjunct2, THEN conjunct2, THEN conjunct2, THEN conjunct2] e l c
  have 3: "positions (fst (track [?old] 495 draws (person_at 15 40) (Suc 0)))
       = tl full_history @ [\<lparr>x = Num 15, y = Num 40, timestamp = Num 495\<rparr>]"
    by simp
  from history_bounded_fifo [where rnd = draws and k = 0 and frames = crowded_frames,
      THEN conjunct1] m
  have 4: "length (positions (run draws [] 0 crowded_frames ! 2 ! 0)) \<le> POSITION_HISTORY"
    by blast
  from 1 have 5: "length (push_position full_history (sample (15, 0, 495))) = 15"
    by (simp add: full_history_length)
  from l 1 2 3 4 5 e p3 show ?thesis by blast
qed

text \<open>
  C6. A detection is associated with a previous track exactly when that track is the
  first one in list order that has the same class and whose bounding-box center differs
  from the detection's by less than 50px on the x axis and by less than 50px on the y
  axis, the centers and their differences being the doubles the program computes; no
  track is associated when none qualifies. A track centered at (130,120) matches a
  detection of its class centered at (100,100), one centered at (200,100) does not.
\<close>

theorem association_rectangular_gate:
  "(existingObject prev pred = Some obj \<longleftrightarrow>
      (\<exists>i < length prev. prev ! i = obj \<and> gate pred obj \<and> (\<forall>j < i. \<not> gate pred (prev ! j))))
   \<and> (existingObject prev pred = None \<longleftrightarrow> (\<forall>obj \<in> set prev. \<not> gate pred obj))
   \<and> (class' old = class' pred \<and> center (bbox pred) = (Num 100, Num 100)
        \<and> center (bbox old) = (Num 130, Num 120) \<longrightarrow> existingObject [old] pred = Some old)
   \<and> (class' old = class' pred \<and> center (bbox pred) = (Num 100, Num 100)
        \<and> center (bbox old) = (Num 200, Num 100) \<longrightarrow> existingObject [old] pred = None)"
proof (intro conjI)
  show "existingObject prev pred = Some obj \<longleftrightarrow>
      (\<exists>i < length prev. prev ! i = obj \<and> gate pred obj \<and> (\<forall>j < i. \<not> gate pred (prev ! j)))"
    by (auto simp: existingObject_find find_Some_iff)
  show "existingObject prev pred = None \<longleftrightarrow> (\<forall>obj \<in> set prev. \<not> gate pred obj)"
    by (auto simp: existingObject_find find_None_iff)
  show "class' old = class' pred \<and> center (bbox pred) = (Num 100, Num 100)
        \<and> center (bbox old) = (Num 130, Num 120) \<longrightarrow> existingObject [old] pred = Some old"
    by (simp add: existingObject_find gate_def)
  show "class' old = class' pred \<and> center (bbox pred) = (Num 100, Num 100)
        \<and> center (bbox old) = (Num 200, Num 100) \<longrightarrow> existingObject [old] pred = None"
    by (simp add: existingObject_find gate_def)
qed

text \<open>
  The witness has a track at a diagonal offset of (45,45), which matches although it is
  more than 50px away; and two pairs of boxes at the edge of the gate. With the left
  edges at 12.1 and 62.1 the centers are the doubles 32.1 and 82.1, whose difference is
  the double below 50: the track is associated, although the exact centers are 50 or
  more apart. With the left edges at 0.3 and 50.3 the difference of the centers is the
  double 50: the track is not associated, although the exact centers are less than 50
  apart.
\<close>

theorem association_rectangular_gate_witness:
  "existingObject [fst (track [] 0 draws (person_at 130 120) 0)] (person_at 100 100)
     = Some (fst (track [] 0 draws (person_at 130 120) 0))
   \<and> existingObject [fst (track [] 0 draws (person_at 200 100) 0)] (person_at 100 100) = None
   \<and> existingObject [fst (track [] 0 draws (person_at 200 100) 0),
                      fst (track [] 0 draws (person_at 145 145) 0),
                      fst (track [] 0 draws (person_at 130 120) 0)] (person_at 100 100)
     = Some (fst (track [] 0 draws (person_at 145 145) 0))
   \<and> existingObject [fst (track [] 0 draws (person_at 200 100) 0),
                      fst (track [] 0 draws (person_at 100 150) 0)] (person_at 100 100) = None
   \<and> existingObject [fst (track [] 0 draws (person_box (dbl (121 / 10)) 60) 0)]
         (person_box (dbl (621 / 10)) 60)
     = Some (fst (track [] 0 draws (person_box (dbl (121 / 10)) 60) 0))
   \<and> 50 \<le> (dbl (621 / 10) + 40 / 2) - (dbl (121 / 10) + 40 / 2)
   \<and> existingObject [fst (track [] 0 draws (person_box (dbl (3 / 10)) 60) 0)]
         (person_box (dbl (503 / 10)) 60) = None
   \<and> (dbl (503 / 10) + 40 / 2) - (dbl (3 / 10) + 40 / 2) < 50"
proof -
  note c = center_def centerX_def centerY_def bbox_at_def
  have g: "gate (person_at 100 100) (fst (track [] 0 draws (person_at 145 145) 0))"
    "\<not> gate (person_at 100 100) (fst (track [] 0 draws (person_at 200 100) 0))"
    "\<not> gate (person_at 100 100) (fst (track [] 0 draws (person_at 100 150) 0))"
    by (simp_all add: gate_def c)
  note a = association_rectangular_gate
  have 1: "existingObject [fst (track [] 0 draws (person_at 130 120) 0)] (person_at 100 100)
     = Some (fst (track [] 0 draws (person_at 130 120) 0))"
    using a [where old = "fst (track [] 0 draws (person_at 130 120) 0)"
        and pred = "person_at 100 100"]
    by (simp add: c)
  have 2: "existingObject [fst (track [] 0 draws (person_at 200 100) 0)] (person_at 100 100) = None"
    using a [where old = "fst (track [] 0 draws (person_at 200 100) 0)"
        and pred = "person_at 100 100"]
    by (simp add: c)
  have 3: "existingObject [fst (track [] 0 draws (person_at 200 100) 0),
                      fst (track [] 0 draws (person_at 145 145) 0),
                      fst (track [] 0 draws (person_at 130 120) 0)] (person_at 100 100)
     = Some (fst (track [] 0 draws (person_at 145 145) 0))"
  proof -
    let ?prev = "[fst (track [] 0 draws (person_at 200 100) 0),
                      fst (track [] 0 draws (person_at 145 145) 0),
                      fst (track [] 0 draws (person_at 130 120) 0)]"
    have "\<exists>i < length ?prev. ?prev ! i = fst (track [] 0 draws (person_at 145 145) 0)
            \<and> gate (person_at 100 100) (fst (track [] 0 draws (person_at 145 145) 0))
            \<and> (\<forall>j < i. \<not> gate (person_at 100 100) (?prev ! j))"
      using g by (intro exI [of _ 1]) simp
    with a [of ?prev "person_at 100 100" "fst (track [] 0 draws (person_at 145 145) 0)"]
    show ?thesis by blast
  qed
  have 4: "existingObject [fst (track [] 0 draws (person_at 200 100) 0),
                      fst (track [] 0 draws (person_at 100 150) 0)] (person_at 100 100) = None"
    using a [of "[fst (track [] 0 draws (person_at 200 100) 0),
                      fst (track [] 0 draws (person_at 100 150) 0)]" "person_at 100 100"] g
    by simp
  have d1: "dbl (121 / 10) = 6811694436397875 / 562949953421312"
    by (subst dbl_eval [where e = "3"]) (simp_all add: rne_def)
  have d2: "dbl (621 / 10) = 8739798026865869 / 140737488355328"
    by (subst dbl_eval [where e = "5"]) (simp_all add: rne_def)
  have d3: "dbl (3 / 10) = 5404319552844595 / 18014398509481984"
    by (subst dbl_eval [where e = "-2"]) (simp_all add: rne_def)
  have d4: "dbl (503 / 10) = 3539547832136499 / 70368744177664"
    by (subst dbl_eval [where e = "5"]) (simp_all add: rne_def)
  have d5: "dbl (18070693504824115 / 562949953421312) = 4517673376206029 / 140737488355328"
    by (subst dbl_eval [where e = "5"]) (simp_all add: rne_def)
  have d6: "dbl (11554547793972429 / 140737488355328) = 2888636948493107 / 35184372088832"
    by (subst dbl_eval [where e = "6"]) (simp_all add: rne_def)
  have d7: "dbl (365692289742484275 / 18014398509481984) = 5713942027226317 / 281474976710656"
    by (subst dbl_eval [where e = "4"]) (simp_all add: rne_def)
  have d8: "dbl (4946922715689779 / 70368744177664) = 4946922715689779 / 70368744177664"
    by (subst dbl_eval [where e = "6"]) (simp_all add: rne_def)
  have d9: "dbl (- (7036874417766399 / 140737488355328)) = - (7036874417766399 / 140737488355328)"
    by (subst dbl_eval [where e = "5"]) (simp_all add: rne_def)
  have d10: "dbl (- (14073748835532799 / 281474976710656)) = - 50"
    by (subst dbl_eval [where e = "5"]) (simp_all add: rne_def)
  note ds = d1 d2 d3 d4 d5 d6 d7 d8 d9 d10
  have e: "gate (person_box (dbl (621 / 10)) 60) (fst (track [] 0 draws (person_box (dbl (121 / 10)) 60) 0))"
    "\<not> gate (person_box (dbl (503 / 10)) 60) (fst (track [] 0 draws (person_box (dbl (3 / 10)) 60) 0))"
    by (simp_all add: gate_def c ds)
  have 5: "existingObject [fst (track [] 0 draws (person_box (dbl (121 / 10)) 60) 0)]
         (person_box (dbl (621 / 10)) 60) = Some (fst (track [] 0 draws (person_box (dbl (121 / 10)) 60) 0))"
  proof -
    let ?prev = "[fst (track [] 0 draws (person_box (dbl (121 / 10)) 60) 0)]"
    have "\<exists>i < length ?prev. ?prev ! i = fst (track [] 0 draws (person_box (dbl (121 / 10)) 60) 0)
            \<and> gate (person_box (dbl (621 / 10)) 60) (fst (track [] 0 draws (person_box (dbl (121 / 10)) 60) 0))
            \<and> (\<forall>j < i. \<not> gate (person_box (dbl (621 / 10)) 60) (?prev ! j))"
      using e(1) by (intro exI [of _ 0]) simp
    with a [of ?prev "person_box (dbl (621 / 10)) 60" "fst (track [] 0 draws (person_box (dbl (121 / 10)) 60) 0)"]
    show ?thesis by blast
  qed
  have 6: "existingObject [fst (track [] 0 draws (person_box (dbl (3 / 10)) 60) 0)]
         (person_box (dbl (503 / 10)) 60) = None"
    using a [of "[fst (track [] 0 draws (person_box (dbl (3 / 10)) 60) 0)]" "person_box (dbl (503 / 10)) 60"] e(2)
    by simp
  have 7: "50 \<le> (dbl (621 / 10) + 40 / 2) - (dbl (121 / 10) + 40 / 2)"
    "(dbl (503 / 10) + 40 / 2) - (dbl (3 / 10) + 40 / 2) < 50"
    by (simp_all add: ds)
  from 1 2 3 4 5 6 7 show ?thesis by blast
qed

text \<open>
  C5, as amended. A track of the previous set is absent from the output of the next cycle
  and of every later cycle, provided that in the next cycle no detection is associated
  with a previous track that carries its id (the track itself, or another track with the
  same id) and that its id is not among the ids newly drawn in the next cycle or later.
  With zero detections the output track set is empty, whatever the previous set. The
  ids of a cycle's output are exactly the non-empty ids of the associated previous tracks
  and the newly drawn ids, so the two provisos name the only ways back.
\<close>

theorem unmatched_track_vanishes:
  assumes "trk \<in> set prev"
    and "\<forall>d \<in> set ds. \<forall>old. existingObject prev d = Some old \<longrightarrow> id' old \<noteq> id' trk"
    and "id' trk \<notin> set (run_drawn_ids rnd prev k ((ds, now) # rest))"
  shows "(\<forall>objs \<in> set (run rnd prev k ((ds, now) # rest)). id' trk \<notin> id' ` set objs)
    \<and> detection_cycle prev' now' rnd' [] k' = ([], k')
    \<and> id' ` set (fst (detection_cycle prev now rnd ds k)) =
        {id' old |d old. d \<in> set ds \<and> existingObject prev d = Some old \<and> id' old \<noteq> []}
        \<union> set (drawn_ids prev rnd ds k)"
proof (intro conjI)
  let ?out = "fst (updatedObjects prev now rnd ds k)"
  let ?k = "snd (updatedObjects prev now rnd ds k)"
  from assms(3) have fresh: "id' trk \<notin> set (drawn_ids prev rnd ds k)"
    and later: "id' trk \<notin> set (run_drawn_ids rnd ?out ?k rest)"
    by (simp_all add: run_drawn_ids_Cons)
  from cycle_id_absent [OF assms(2) fresh] have 1: "id' trk \<notin> id' ` set ?out" .
  from run_id_absent [OF 1 later] 1
  show "\<forall>objs \<in> set (run rnd prev k ((ds, now) # rest)). id' trk \<notin> id' ` set objs"
    by (simp add: run_Cons)
  show "detection_cycle prev' now' rnd' [] k' = ([], k')"
    by (simp add: detection_cycle_eq)
  show "id' ` set (fst (detection_cycle prev now rnd ds k)) =
        {id' old |d old. d \<in> set ds \<and> existingObject prev d = Some old \<and> id' old \<noteq> []}
        \<union> set (drawn_ids prev rnd ds k)"
    by (simp only: detection_cycle_eq cycle_ids)
qed

text \<open>
  The witness draws from a stream that repeats after three draws. The track of the first
  cycle has the id of draw 0; the next two cycles draw the ids of draws 1 and 2, so the
  provisos hold and the id stays away, although draw 3 would give it again.
\<close>

theorem unmatched_track_vanishes_witness:
  "id' (fst (track [] 0 cyclic_draws (person_at 100 100) 0)) = ''person-0.1''
   \<and> existingObject [fst (track [] 0 cyclic_draws (person_at 100 100) 0)] (person_at 300 100) = None
   \<and> run_drawn_ids cyclic_draws [fst (track [] 0 cyclic_draws (person_at 100 100) 0)] (Suc 0)
         [([person_at 300 100], 33), ([person_at 500 100], 66)]
       = [''person-0.2'', ''person-0.3'']
   \<and> ''person-0.1'' \<notin> id' ` set (run cyclic_draws [fst (track [] 0 cyclic_draws (person_at 100 100) 0)] (Suc 0)
          [([person_at 300 100], 33), ([person_at 500 100], 66)] ! 0)
   \<and> ''person-0.1'' \<notin> id' ` set (run cyclic_draws [fst (track [] 0 cyclic_draws (person_at 100 100) 0)] (Suc 0)
          [([person_at 300 100], 33), ([person_at 500 100], 66)] ! 1)
   \<and> new_id (person_at 100 300) (cyclic_draws 3) = ''person-0.1''
   \<and> detection_cycle [fst (track [] 0 cyclic_draws (person_at 100 100) 0)] 33 cyclic_draws [] (Suc 0) = ([], Suc 0)"
proof -
  let ?t1 = "fst (track [] 0 cyclic_draws (person_at 100 100) 0)"
  let ?rest = "[([person_at 500 100], 66)] :: (Detection list \<times> int) list"
  note ev = run_drawn_ids_Cons updatedObjects_Cons track_id track_counter existingObject_def
    box_simps new_id_def cyclic_draws_def
  have i: "id' ?t1 = ''person-0.1''" by (simp add: ev)
  have e: "existingObject [?t1] (person_at 300 100) = None"
    by (simp add: existingObject_def box_simps)
  have dr: "run_drawn_ids cyclic_draws [?t1] (Suc 0) (([person_at 300 100], 33) # ?rest)
              = [''person-0.2'', ''person-0.3'']"
    by (simp add: ev)
  have h1: "?t1 \<in> set [?t1]" by simp
  have h2: "\<forall>d \<in> set [person_at 300 100]. \<forall>old.
              existingObject [?t1] d = Some old \<longrightarrow> id' old \<noteq> id' ?t1"
    by (simp add: e)
  have h3: "id' ?t1 \<notin> set (run_drawn_ids cyclic_draws [?t1] (Suc 0)
              (([person_at 300 100], 33) # ?rest))"
    by (simp only: dr i) simp
  note w = unmatched_track_vanishes [OF h1 h2 h3, of "[?t1]" 33 cyclic_draws "Suc 0"]
  have n: "length (run cyclic_draws [?t1] (Suc 0) (([person_at 300 100], 33) # ?rest)) = 2"
    by (simp add: run_length)
  have m0: "run cyclic_draws [?t1] (Suc 0) (([person_at 300 100], 33) # ?rest) ! 0
              \<in> set (run cyclic_draws [?t1] (Suc 0) (([person_at 300 100], 33) # ?rest))"
    by (rule nth_mem) (simp add: n)
  have m1: "run cyclic_draws [?t1] (Suc 0) (([person_at 300 100], 33) # ?rest) ! 1
              \<in> set (run cyclic_draws [?t1] (Suc 0) (([person_at 300 100], 33) # ?rest))"
    by (rule nth_mem) (simp add: n)
  from w m0 m1 have a:
    "id' ?t1 \<notin> id' ` set (run cyclic_draws [?t1] (Suc 0) (([person_at 300 100], 33) # ?rest) ! 0)"
    "id' ?t1 \<notin> id' ` set (run cyclic_draws [?t1] (Suc 0) (([person_at 300 100], 33) # ?rest) ! 1)"
    by blast+
  have c: "new_id (person_at 100 300) (cyclic_draws 3) = ''person-0.1''"
    by (simp add: new_id_def cyclic_draws_def)
  from a i have b:
    "''person-0.1'' \<notin> id' ` set (run cyclic_draws [?t1] (Suc 0) (([person_at 300 100], 33) # ?rest) ! 0)"
    "''person-0.1'' \<notin> id' ` set (run cyclic_draws [?t1] (Suc 0) (([person_at 300 100], 33) # ?rest) ! 1)"
    by simp_all
  from w have z: "detection_cycle [?t1] 33 cyclic_draws [] (Suc 0) = ([], Suc 0)" by blast
  from i e dr b c z show ?thesis by blast
qed

text \<open>
  The claim as stated fails in both of its parts. Two tracks can share an id, which the
  cycle itself brings about: in \<open>crowded_frames\<close> the second track of cycle 2 is matched by
  no detection of cycle 3, and its id is in the output of cycle 3. And an id can be drawn
  again: in \<open>wandering_frames\<close>, with a stream of draws that repeats, the track of cycle 1
  is matched by no detection of cycle 2 and is absent from its output, and the new track
  of cycle 4 carries its id.
\<close>

theorem shared_id_counterexample:
  "fst (crowded_frames ! 2) = [person_at 60 100]
   \<and> run draws [] 0 crowded_frames ! 1 ! 1 \<in> set (run draws [] 0 crowded_frames ! 1)
   \<and> existingObject (run draws [] 0 crowded_frames ! 1) (person_at 60 100)
       \<noteq> Some (run draws [] 0 crowded_frames ! 1 ! 1)
   \<and> id' (run draws [] 0 crowded_frames ! 1 ! 1) = ''person-0.7''
   \<and> map id' (run draws [] 0 crowded_frames ! 2) = [''person-0.7'']
   \<and> fst (wandering_frames ! 1) = [person_at 300 100]
   \<and> id' (run cyclic_draws [] 0 wandering_frames ! 0 ! 0) = ''person-0.1''
   \<and> existingObject (run cyclic_draws [] 0 wandering_frames ! 0) (person_at 300 100) = None
   \<and> map id' (run cyclic_draws [] 0 wandering_frames ! 1) = [''person-0.2'']
   \<and> map id' (run cyclic_draws [] 0 wandering_frames ! 3) = [''person-0.1'']"
proof -
  have crowd: "fst (crowded_frames ! 2) = [person_at 60 100]
   \<and> run draws [] 0 crowded_frames ! 1 ! 1 \<in> set (run draws [] 0 crowded_frames ! 1)
   \<and> existingObject (run draws [] 0 crowded_frames ! 1) (person_at 60 100)
       \<noteq> Some (run draws [] 0 crowded_frames ! 1 ! 1)
   \<and> id' (run draws [] 0 crowded_frames ! 1 ! 1) = ''person-0.7''
   \<and> map id' (run draws [] 0 crowded_frames ! 2) = [''person-0.7'']"
  proof -
  have "id' (fst (track
         [fst (track [fst (track [] 0 draws (person_at 120 100) 0)] 33 draws (person_at 100 100) (Suc 0)),
          fst (track [fst (track [] 0 draws (person_at 120 100) 0)] 33 draws (person_at 140 100) (Suc 0))]
         66 draws (person_at 60 100) (Suc 0))) = ''person-0.7''"
    by (simp add: track_id [of "[a, b]" for a b] crowd_third_found crowd_ids)
  then show ?thesis
    using crowd_distinct
    by (simp add: crowd_run crowd_third_found crowd_ids) (simp add: crowded_frames_def)
qed
  have w: "map (map id') (run cyclic_draws [] 0 wandering_frames)
             = [ [''person-0.1''], [''person-0.2''], [''person-0.3''], [''person-0.1''] ]"
    by (simp add: wandering_frames_def run_Cons updatedObjects_Cons track_id track_counter
        existingObject_def box_simps new_id_def cyclic_draws_def)
  have l: "length (run cyclic_draws [] 0 wandering_frames) = 4"
    by (simp add: run_length wandering_frames_def)
  have n: "map id' (run cyclic_draws [] 0 wandering_frames ! j)
             = map (map id') (run cyclic_draws [] 0 wandering_frames) ! j" if "j < 4" for j
    using that l by simp
  have r0: "run cyclic_draws [] 0 wandering_frames ! 0
              = [fst (track [] 0 cyclic_draws (person_at 100 100) 0)]"
    by (simp add: wandering_frames_def run_Cons updatedObjects_Cons)
  have 1: "id' (run cyclic_draws [] 0 wandering_frames ! 0 ! 0) = ''person-0.1''"
    by (simp add: r0 track_id new_id_def cyclic_draws_def)
  have 2: "existingObject (run cyclic_draws [] 0 wandering_frames ! 0) (person_at 300 100) = None"
    by (simp add: r0 existingObject_def box_simps)
  have 3: "map id' (run cyclic_draws [] 0 wandering_frames ! 1) = [''person-0.2'']"
    "map id' (run cyclic_draws [] 0 wandering_frames ! 3) = [''person-0.1'']"
    by (simp_all add: n w)
  have 4: "fst (wandering_frames ! 1) = [person_at 300 100]"
    by (simp add: wandering_frames_def)
  from crowd 1 2 3 4 show ?thesis by blast
qed

text \<open>
  C7, as amended. When two detections of one cycle both fall within the gate of the same
  previous track, and it is the only previous track within the gate of either, both
  detections are associated with it: both emitted records reuse its id (a non-empty
  string), no new id is drawn, and each record carries the track's history extended by
  its own sample.
\<close>

theorem double_match_shares_id:
  assumes "trk \<in> set prev" and "gate d1 trk" and "gate d2 trk"
    and "\<forall>obj \<in> set prev. gate d1 obj \<or> gate d2 obj \<longrightarrow> obj = trk"
    and "id' trk \<noteq> []"
  shows "map id' (fst (detection_cycle prev now rnd [d1, d2] k)) = [id' trk, id' trk]
    \<and> snd (detection_cycle prev now rnd [d1, d2] k) = k
    \<and> map positions (fst (detection_cycle prev now rnd [d1, d2] k)) =
        [push_position (positions trk)
           \<lparr>x = centerX (bbox d1), y = centerY (bbox d1), timestamp = Num (of_int now)\<rparr>,
         push_position (positions trk)
           \<lparr>x = centerX (bbox d2), y = centerY (bbox d2), timestamp = Num (of_int now)\<rparr>]"
proof -
  have a1: "\<forall>obj \<in> set prev. gate d1 obj \<longrightarrow> obj = trk" using assms(4) by blast
  have a2: "\<forall>obj \<in> set prev. gate d2 obj \<longrightarrow> obj = trk" using assms(4) by blast
  have e1: "existingObject prev d1 = Some trk"
    unfolding existingObject_find by (rule find_only [OF assms(1) assms(2) a1])
  have e2: "existingObject prev d2 = Some trk"
    unfolding existingObject_find by (rule find_only [OF assms(1) assms(3) a2])
  from e1 assms(5) have k1: "snd (track prev now rnd d1 k) = k" by (simp add: track_counter)
  from e2 assms(5) have k2: "snd (track prev now rnd d2 k) = k" by (simp add: track_counter)
  from e1 assms(5) have i1: "id' (fst (track prev now rnd d1 k)) = id' trk"
    by (simp add: track_id)
  from e2 assms(5) have i2: "id' (fst (track prev now rnd d2 k)) = id' trk"
    by (simp add: track_id)
  have u: "updatedObjects prev now rnd [d1, d2] k =
             ([fst (track prev now rnd d1 k), fst (track prev now rnd d2 k)], k)"
    by (simp add: updatedObjects_Cons k1 k2)
  show ?thesis
    by (simp add: detection_cycle_eq u i1 i2 track_positions e1 e2)
qed

theorem double_match_shares_id_witness:
  "gate (person_at 100 100) (fst (track [] 0 draws (person_at 120 100) 0))
   \<and> gate (person_at 140 100) (fst (track [] 0 draws (person_at 120 100) 0))
   \<and> id' (fst (track [] 0 draws (person_at 120 100) 0)) = ''person-0.7''
   \<and> map id' (fst (detection_cycle [fst (track [] 0 draws (person_at 120 100) 0)] 33 draws
                     [person_at 100 100, person_at 140 100] (Suc 0)))
       = [''person-0.7'', ''person-0.7'']
   \<and> snd (detection_cycle [fst (track [] 0 draws (person_at 120 100) 0)] 33 draws
              [person_at 100 100, person_at 140 100] (Suc 0)) = Suc 0
   \<and> map positions (fst (detection_cycle [fst (track [] 0 draws (person_at 120 100) 0)] 33 draws
                     [person_at 100 100, person_at 140 100] (Suc 0)))
       = [ [\<lparr>x = Num 120, y = Num 100, timestamp = Num 0\<rparr>,
           \<lparr>x = Num 100, y = Num 100, timestamp = Num 33\<rparr>],
          [\<lparr>x = Num 120, y = Num 100, timestamp = Num 0\<rparr>,
           \<lparr>x = Num 140, y = Num 100, timestamp = Num 33\<rparr>] ]"
proof -
  let ?t0 = "fst (track [] 0 draws (person_at 120 100) 0)"
  have g1: "gate (person_at 100 100) ?t0" and g2: "gate (person_at 140 100) ?t0"
    using crowd_gate by (simp_all add: within_gate_iff)
  have h1: "?t0 \<in> set [?t0]" by simp
  have h4: "\<forall>obj \<in> set [?t0]. gate (person_at 100 100) obj \<or> gate (person_at 140 100) obj
              \<longrightarrow> obj = ?t0"
    by simp
  have h5: "id' ?t0 \<noteq> []" by (simp add: first_track)
  from double_match_shares_id [OF h1 g1 g2 h4 h5, of 33 draws "Suc 0"] g1 g2 show ?thesis
    by (simp add: first_track first_positions push_position_def POSITION_HISTORY_def
        centerX_def centerY_def bbox_at_def)
qed

text \<open>
  The claim as stated fails: the second detection does not become a new track, the two
  emitted records carry the same id.
\<close>

theorem double_match_counterexample:
  "within_gate (person_at 100 100) (fst (track [] 0 draws (person_at 120 100) 0))
   \<and> within_gate (person_at 140 100) (fst (track [] 0 draws (person_at 120 100) 0))
   \<and> map id' (fst (detection_cycle [fst (track [] 0 draws (person_at 120 100) 0)] 33 draws
                     [person_at 100 100, person_at 140 100] 1))
       = [''person-0.7'', ''person-0.7'']"
  by (simp add: crowd_gate detection_cycle_eq updatedObjects_Cons track_id track_counter
      crowd_found new_id_def draws_def)




text \<open>
  C9. Replaying the same sequence of detection lists and clock readings from the empty
  track set gives, whatever the random draws are, the same tracks up to their ids: in
  every cycle the sequences of speed values and of action values are identical.
\<close>

theorem replay_deterministic:
  "map (map forget_id) (run r1 [] k1 frames) = map (map forget_id) (run r2 [] k2 frames)
   \<and> map (map speed) (run r1 [] k1 frames) = map (map speed) (run r2 [] k2 frames)
   \<and> map (map action) (run r1 [] k1 frames) = map (map action) (run r2 [] k2 frames)"
proof -
  have e: "map (map forget_id) (run r1 [] k1 frames) = map (map forget_id) (run r2 [] k2 frames)"
    by (rule run_forget) simp
  have "map (map speed) (run r1 [] k1 frames) = map (map speed) (map (map forget_id) (run r1 [] k1 frames))"
    by (simp add: forget_id_def comp_def)
  also have "\<dots> = map (map speed) (map (map forget_id) (run r2 [] k2 frames))"
    by (simp only: e)
  also have "\<dots> = map (map speed) (run r2 [] k2 frames)"
    by (simp add: forget_id_def comp_def)
  finally have s: "map (map speed) (run r1 [] k1 frames) = map (map speed) (run r2 [] k2 frames)" .
  have "map (map action) (run r1 [] k1 frames) = map (map action) (map (map forget_id) (run r1 [] k1 frames))"
    by (simp add: forget_id_def comp_def)
  also have "\<dots> = map (map action) (map (map forget_id) (run r2 [] k2 frames))"
    by (simp only: e)
  also have "\<dots> = map (map action) (run r2 [] k2 frames)"
    by (simp add: forget_id_def comp_def)
  finally have a: "map (map action) (run r1 [] k1 frames) = map (map action) (run r2 [] k2 frames)" .
  from e s a show ?thesis by blast
qed

theorem replay_deterministic_witness:
  "map (map speed) (run draws [] 0 crowded_frames)
     = map (map speed) (run other_draws [] 5 crowded_frames)
   \<and> map (map action) (run draws [] 0 crowded_frames)
     = map (map action) (run other_draws [] 5 crowded_frames)
   \<and> map (map id') (run draws [] 0 [([person_at 120 100], 0)]) = [ [''person-0.7''] ]
   \<and> map (map id') (run other_draws [] 5 [([person_at 120 100], 0)]) = [ [''person-0.333333''] ]"
proof -
  have i: "map (map id') (run draws [] 0 [([person_at 120 100], 0)]) = [ [''person-0.7''] ]"
    "map (map id') (run other_draws [] 5 [([person_at 120 100], 0)]) = [ [''person-0.333333''] ]"
    by (simp_all add: run_Cons updatedObjects_Cons track_id new_id_def draws_def other_draws_def
        eval_nat_numeral)
  from replay_deterministic [of draws 0 crowded_frames other_draws 5] i show ?thesis
    by blast
qed

end
